theory Spec2Isabelle
  imports Main "HOL-Library.Product_Lexorder" "HOL-Library.AList"
begin

section \<open>Dates and times\<close>

text \<open>
  The tracker works on naive \<^verbatim>\<open>datetime\<close> values of Python's standard library. A value
  is its seven calendar fields; Python compares two naive values by comparing the tuples
  of these fields lexicographically, which is the order of \<open>dt_key\<close>.
\<close>

record datetime =
  year :: nat
  month :: nat
  day :: nat
  hour :: nat
  minute :: nat
  second :: nat
  microsecond :: nat

definition dt_key :: "datetime \<Rightarrow> nat \<times> nat \<times> nat \<times> nat \<times> nat \<times> nat \<times> nat" where
  "dt_key t = (year t, month t, day t, hour t, minute t, second t, microsecond t)"

definition dt_lt :: "datetime \<Rightarrow> datetime \<Rightarrow> bool" where
  "dt_lt a b = (dt_key a < dt_key b)"

definition dt_gt :: "datetime \<Rightarrow> datetime \<Rightarrow> bool" where
  "dt_gt a b = dt_lt b a"

definition mk_date :: "nat \<Rightarrow> nat \<Rightarrow> nat \<Rightarrow> datetime" where
  "mk_date y m d =
     \<lparr>year = y, month = m, day = d, hour = 0, minute = 0, second = 0, microsecond = 0\<rparr>"

definition datetime_min :: datetime where
  "datetime_min = mk_date 1 1 1"

definition datetime_max :: datetime where
  "datetime_max =
     \<lparr>year = 9999, month = 12, day = 31, hour = 23, minute = 59, second = 59,
      microsecond = 999999\<rparr>"

definition is_leap :: "nat \<Rightarrow> bool" where
  "is_leap y = (y mod 4 = 0 \<and> (y mod 100 \<noteq> 0 \<or> y mod 400 = 0))"

definition days_in_month :: "nat \<Rightarrow> nat \<Rightarrow> nat" where
  "days_in_month y m =
     (if m = 2 then (if is_leap y then 29 else 28)
      else if m = 4 \<or> m = 6 \<or> m = 9 \<or> m = 11 then 30 else 31)"

definition valid_date :: "nat \<Rightarrow> nat \<Rightarrow> nat \<Rightarrow> bool" where
  "valid_date y m d =
     (1 \<le> y \<and> y \<le> 9999 \<and> 1 \<le> m \<and> m \<le> 12 \<and> 1 \<le> d \<and> d \<le> days_in_month y m)"

definition valid_datetime :: "datetime \<Rightarrow> bool" where
  "valid_datetime t =
     (valid_date (year t) (month t) (day t) \<and>
      hour t < 24 \<and> minute t < 60 \<and> second t < 60 \<and> microsecond t < 1000000)"

text \<open>
  The proleptic Gregorian ordinal of a date (1 for January 1 of year 1), computed as the
  library does: days before the year, days before the month (from its table, for a month
  from 1 to 12), day of the month.
\<close>

definition days_before_year :: "nat \<Rightarrow> int" where
  "days_before_year y =
     (let p = int y - 1 in p * 365 + p div 4 - p div 100 + p div 400)"

definition days_before_month :: "nat \<Rightarrow> nat \<Rightarrow> int" where
  "days_before_month y m =
     [0, 0, 31, 59, 90, 120, 151, 181, 212, 243, 273, 304, 334] ! m +
     (if 2 < m \<and> is_leap y then 1 else 0)"

definition ymd2ord :: "nat \<Rightarrow> nat \<Rightarrow> nat \<Rightarrow> int" where
  "ymd2ord y m d = days_before_year y + days_before_month y m + int d"

definition toordinal :: "datetime \<Rightarrow> int" where
  "toordinal t = ymd2ord (year t) (month t) (day t)"

text \<open>
  A \<^verbatim>\<open>timedelta\<close> is normalised: \<open>0 \<le> seconds < 86400\<close> and
  \<open>0 \<le> microseconds < 1000000\<close>, the sign carried by \<open>days\<close>. Subtracting two
  naive datetimes subtracts ordinals, seconds of the day and microseconds, then normalises.
\<close>

record timedelta =
  days :: int
  seconds :: int
  microseconds :: int

definition timedelta_norm :: "int \<Rightarrow> int \<Rightarrow> int \<Rightarrow> timedelta" where
  "timedelta_norm d s us =
     (let s1 = s + us div 1000000;
          d1 = d + s1 div 86400
      in \<lparr>days = d1, seconds = s1 mod 86400, microseconds = us mod 1000000\<rparr>)"

definition day_seconds :: "datetime \<Rightarrow> int" where
  "day_seconds t = int (second t) + int (minute t) * 60 + int (hour t) * 3600"

definition datetime_sub :: "datetime \<Rightarrow> datetime \<Rightarrow> timedelta" where
  "datetime_sub a b =
     timedelta_norm (toordinal a - toordinal b) (day_seconds a - day_seconds b)
       (int (microsecond a) - int (microsecond b))"

text \<open>
  \<^verbatim>\<open>min(xs)\<close> on a non-empty list keeps the first of the smallest elements: a later
  element replaces the running minimum only when it is strictly smaller.
\<close>

fun py_min :: "datetime \<Rightarrow> datetime list \<Rightarrow> datetime" where
  "py_min m [] = m"
| "py_min m (x # xs) = py_min (if dt_lt x m then x else m) xs"

section \<open>Opportunity records\<close>

text \<open>
  A grant is a dictionary. The keys the tracker reads with \<^verbatim>\<open>grant['k']\<close> are plain
  fields; the keys it reads with \<^verbatim>\<open>grant.get('k', default)\<close>, which a record loaded
  from the persisted file may lack, are optional.
\<close>

record grant =
  title :: string
  agency :: string
  url :: string
  deadlines :: "datetime list option"
  amounts :: "int list"
  description :: "string option"
  last_updated :: "datetime option"
  source_type :: string
  eligibility :: "string list option"
  urgency :: "int option"

section \<open>Urgency classifier\<close>

definition calculate_urgency :: "datetime \<Rightarrow> grant \<Rightarrow> int" where
  "calculate_urgency now g =
     (case deadlines g of
        None \<Rightarrow> 0
      | Some [] \<Rightarrow> 0
      | Some (d # ds) \<Rightarrow>
          (let nearest_deadline = py_min d ds;
               days_until = days (datetime_sub nearest_deadline now)
           in if days_until \<le> 30 then 5
              else if days_until \<le> 90 then 4
              else if days_until \<le> 180 then 3
              else if days_until \<le> 365 then 2
              else 1))"

section \<open>Strings\<close>

text \<open>
  Strings are lists of 8-bit characters; the model is exact on ASCII text. White space is
  what \<^verbatim>\<open>str.isspace\<close>, \<^verbatim>\<open>str.strip\<close> and the regular expression class
  \<^verbatim>\<open>\s\<close> accept there.
\<close>

definition is_space :: "char \<Rightarrow> bool" where
  "is_space c =
     (c \<in> set [CHR 0x09, CHR 0x0A, CHR 0x0B, CHR 0x0C, CHR 0x0D,
               CHR 0x1C, CHR 0x1D, CHR 0x1E, CHR 0x1F, CHR 0x20])"

definition is_digit :: "char \<Rightarrow> bool" where
  "is_digit c = (c \<in> set ''0123456789'')"

definition digit_val :: "char \<Rightarrow> nat" where
  "digit_val c = of_char c - 48"

definition digit_char :: "nat \<Rightarrow> char" where
  "digit_char n = char_of (48 + n)"

fun str_nat :: "nat \<Rightarrow> string" where
  "str_nat n = (if n < 10 then [digit_char n] else str_nat (n div 10) @ [digit_char (n mod 10)])"

declare str_nat.simps [simp del]

definition lower_char :: "char \<Rightarrow> char" where
  "lower_char c =
     (case map_of (zip ''ABCDEFGHIJKLMNOPQRSTUVWXYZ'' ''abcdefghijklmnopqrstuvwxyz'') c of
        Some l \<Rightarrow> l
      | None \<Rightarrow> c)"

definition lower :: "string \<Rightarrow> string" where
  "lower s = map lower_char s"

definition strip :: "string \<Rightarrow> string" where
  "strip s = rev (dropWhile is_space (rev (dropWhile is_space s)))"

fun starts_with :: "string \<Rightarrow> string \<Rightarrow> bool" where
  "starts_with [] s = True"
| "starts_with (p # ps) [] = False"
| "starts_with (p # ps) (c # cs) = (p = c \<and> starts_with ps cs)"

text \<open>\<open>str_in p s\<close> is Python's \<^verbatim>\<open>p in s\<close> on strings.\<close>

fun str_in :: "string \<Rightarrow> string \<Rightarrow> bool" where
  "str_in p [] = (p = [])"
| "str_in p (c # cs) = (starts_with p (c # cs) \<or> str_in p cs)"

text \<open>\<open>split_on c s\<close> is \<^verbatim>\<open>s.split(c)\<close> for a one-character separator.\<close>

fun split_on :: "char \<Rightarrow> string \<Rightarrow> string list" where
  "split_on c [] = [[]]"
| "split_on c (x # xs) =
     (if x = c then [] # split_on c xs
      else (case split_on c xs of
              [] \<Rightarrow> [[x]]
            | w # ws \<Rightarrow> (x # w) # ws))"

section \<open>Parsing dates\<close>

text \<open>
  \<^verbatim>\<open>datetime.strptime\<close> for the two formats the tracker uses, \<^verbatim>\<open>'%B %d, %Y'\<close> and
  \<^verbatim>\<open>'%B %d %Y'\<close>. The library turns the format into a regular expression matched
  without regard to case: a full English month name, white space, a day
  \<^verbatim>\<open>3[0-1]|[1-2]\d|0[1-9]|[1-9]\<close>, the comma if the format has one, white space, four
  digits, and nothing after them. A string that does not match, or that names a day the
  month does not have, raises \<^verbatim>\<open>ValueError\<close>: the result \<open>None\<close>.
\<close>

datatype date_format = Month_Day_Comma_Year | Month_Day_Year

definition month_names :: "(nat \<times> string) list" where
  "month_names =
     [(1, ''january''), (2, ''february''), (3, ''march''), (4, ''april''), (5, ''may''),
      (6, ''june''), (7, ''july''), (8, ''august''), (9, ''september''), (10, ''october''),
      (11, ''november''), (12, ''december'')]"

fun match_month :: "(nat \<times> string) list \<Rightarrow> string \<Rightarrow> (nat \<times> string) option" where
  "match_month [] s = None"
| "match_month ((k, name) # names) s =
     (if lower (take (length name) s) = name then Some (k, drop (length name) s)
      else match_month names s)"

definition skip_spaces1 :: "string \<Rightarrow> string option" where
  "skip_spaces1 s =
     (case s of
        [] \<Rightarrow> None
      | c # cs \<Rightarrow> if is_space c then Some (dropWhile is_space cs) else None)"

definition two_digit_day :: "char \<Rightarrow> char \<Rightarrow> bool" where
  "two_digit_day a b =
     ((a = CHR ''3'' \<and> (b = CHR ''0'' \<or> b = CHR ''1'')) \<or>
      ((a = CHR ''1'' \<or> a = CHR ''2'') \<and> is_digit b) \<or>
      (a = CHR ''0'' \<and> is_digit b \<and> b \<noteq> CHR ''0''))"

fun match_day :: "string \<Rightarrow> (nat \<times> string) option" where
  "match_day (a # b # r) =
     (if two_digit_day a b then Some (10 * digit_val a + digit_val b, r)
      else if is_digit a \<and> a \<noteq> CHR ''0'' then Some (digit_val a, b # r)
      else None)"
| "match_day [a] = (if is_digit a \<and> a \<noteq> CHR ''0'' then Some (digit_val a, []) else None)"
| "match_day [] = None"

definition match_sep :: "date_format \<Rightarrow> string \<Rightarrow> string option" where
  "match_sep fmt s =
     (case fmt of
        Month_Day_Year \<Rightarrow> skip_spaces1 s
      | Month_Day_Comma_Year \<Rightarrow>
          (case s of
             [] \<Rightarrow> None
           | c # cs \<Rightarrow> if c = CHR '','' then skip_spaces1 cs else None))"

fun match_year :: "string \<Rightarrow> (nat \<times> string) option" where
  "match_year (a # b # c # d # r) =
     (if is_digit a \<and> is_digit b \<and> is_digit c \<and> is_digit d
      then Some (1000 * digit_val a + 100 * digit_val b + 10 * digit_val c + digit_val d, r)
      else None)"
| "match_year s = None"

definition strptime :: "string \<Rightarrow> date_format \<Rightarrow> datetime option" where
  "strptime s fmt =
     (case match_month month_names s of
        None \<Rightarrow> None
      | Some (m, r1) \<Rightarrow>
     (case skip_spaces1 r1 of
        None \<Rightarrow> None
      | Some r2 \<Rightarrow>
     (case match_day r2 of
        None \<Rightarrow> None
      | Some (d, r3) \<Rightarrow>
     (case match_sep fmt r3 of
        None \<Rightarrow> None
      | Some r4 \<Rightarrow>
     (case match_year r4 of
        None \<Rightarrow> None
      | Some (y, r5) \<Rightarrow>
          if r5 = [] \<and> 1 \<le> y \<and> d \<le> days_in_month y m then Some (mk_date y m d)
          else None)))))"

text \<open>
  The stages of \<open>strptime\<close> before the year, for the proofs: the month, the day and
  what is left of the string after the separator.
\<close>

definition month_day_part :: "date_format \<Rightarrow> string \<Rightarrow> (nat \<times> nat \<times> string) option" where
  "month_day_part fmt s =
     (case match_month month_names s of
        None \<Rightarrow> None
      | Some (m, r1) \<Rightarrow>
     (case skip_spaces1 r1 of
        None \<Rightarrow> None
      | Some r2 \<Rightarrow>
     (case match_day r2 of
        None \<Rightarrow> None
      | Some (d, r3) \<Rightarrow>
     (case match_sep fmt r3 of
        None \<Rightarrow> None
      | Some r4 \<Rightarrow> Some (m, d, r4)))))"

section \<open>Recurrence generator\<close>

text \<open>
  One round of the loop of \<^verbatim>\<open>generate_recurring_deadlines\<close>: the dates appended for
  one string. Both calls of \<^verbatim>\<open>strptime\<close> are inside the \<^verbatim>\<open>try\<close>, so a failure of
  either appends nothing.
\<close>

definition recurring_deadline :: "datetime \<Rightarrow> string \<Rightarrow> datetime list" where
  "recurring_deadline now date_str =
     (let current_year = year now in
      case strptime (date_str @ '' '' @ str_nat current_year) Month_Day_Year of
        None \<Rightarrow> []
      | Some deadline \<Rightarrow>
          if dt_gt deadline now then [deadline]
          else (case strptime (date_str @ '' '' @ str_nat (current_year + 1)) Month_Day_Year of
                  None \<Rightarrow> []
                | Some deadline' \<Rightarrow> [deadline']))"

fun generate_recurring_deadlines :: "datetime \<Rightarrow> string list \<Rightarrow> datetime list" where
  "generate_recurring_deadlines now [] = []"
| "generate_recurring_deadlines now (date_str # date_strings) =
     recurring_deadline now date_str @ generate_recurring_deadlines now date_strings"

section \<open>Tracker configuration and relevance filter\<close>

record tracker =
  research_areas :: "string list"
  institution_type :: string
  career_stage :: string

definition getenv :: "string option \<Rightarrow> string \<Rightarrow> string" where
  "getenv v dflt = (case v of None \<Rightarrow> dflt | Some s \<Rightarrow> s)"

definition parse_research_areas :: "string option \<Rightarrow> string list" where
  "parse_research_areas env_areas =
     (let areas_raw = getenv env_areas ''neuroscience,cognitive science,brain imaging''
      in map (\<lambda>area. lower (strip area)) (split_on CHR '','' areas_raw))"

text \<open>
  \<^verbatim>\<open>GrantTracker.__init__\<close>, from the values of the environment variables
  \<^verbatim>\<open>RESEARCH_AREAS\<close>, \<^verbatim>\<open>INSTITUTION_TYPE\<close> and \<^verbatim>\<open>CAREER_STAGE\<close>
  (\<open>None\<close> when unset).
\<close>

definition init_tracker :: "string option \<Rightarrow> string option \<Rightarrow> string option \<Rightarrow> tracker" where
  "init_tracker env_areas env_institution env_stage =
     \<lparr>research_areas = parse_research_areas env_areas,
      institution_type = lower (getenv env_institution ''university''),
      career_stage = lower (getenv env_stage ''postdoc'')\<rparr>"

definition neuro_keywords :: "string list" where
  "neuro_keywords =
     [''brain'', ''neural'', ''neuroscience'', ''cognitive'', ''behavior'', ''fmri'', ''eeg'',
      ''imaging'', ''psychology'', ''psychiatry'', ''mental health'']"

definition text_to_check :: "grant \<Rightarrow> string" where
  "text_to_check g =
     lower (title g @ '' '' @ (case description g of None \<Rightarrow> [] | Some d \<Rightarrow> d))"

definition area_match :: "tracker \<Rightarrow> grant \<Rightarrow> bool" where
  "area_match self g = list_ex (\<lambda>area. str_in area (text_to_check g)) (research_areas self)"

definition career_match :: "tracker \<Rightarrow> grant \<Rightarrow> bool" where
  "career_match self g =
     (let eligibility = (case eligibility g of None \<Rightarrow> [] | Some e \<Rightarrow> e)
      in if eligibility \<noteq> []
         then list_ex (\<lambda>stage. str_in stage (career_stage self) \<or> str_in (career_stage self) stage)
                eligibility
         else True)"

definition neuro_match :: "grant \<Rightarrow> bool" where
  "neuro_match g = list_ex (\<lambda>keyword. str_in keyword (text_to_check g)) neuro_keywords"

definition is_relevant_grant :: "tracker \<Rightarrow> grant \<Rightarrow> bool" where
  "is_relevant_grant self g = ((area_match self g \<or> neuro_match g) \<and> career_match self g)"

section \<open>Field extraction\<close>

text \<open>
  Fetching a page, reading it with the HTML parser and searching it with regular
  expressions are library calls on data from the network. The model takes their results as
  input: the text of the heading, the tokens that the deadline patterns captured (all
  patterns, in the order of the loops) and the tokens that the amount patterns captured.
  The clock is read once: \<open>now\<close> stands for every \<^verbatim>\<open>datetime.now()\<close> of a run.
\<close>

record page =
  page_title :: "string option"
  deadline_matches :: "string list"
  amount_matches :: "string list"
  page_description :: string

text \<open>
  What the NIH loop appends for one captured token: the format with the comma first and,
  only when that raises, the format without it.
\<close>

definition nih_deadline :: "datetime \<Rightarrow> string \<Rightarrow> datetime list" where
  "nih_deadline now match =
     (case strptime (strip match) Month_Day_Comma_Year of
        Some deadline_date \<Rightarrow> if dt_gt deadline_date now then [deadline_date] else []
      | None \<Rightarrow>
          (case strptime (strip match) Month_Day_Year of
             Some deadline_date \<Rightarrow> if dt_gt deadline_date now then [deadline_date] else []
           | None \<Rightarrow> []))"

definition nsf_deadline :: "datetime \<Rightarrow> string \<Rightarrow> datetime list" where
  "nsf_deadline now match =
     (case strptime (strip match) Month_Day_Comma_Year of
        Some deadline_date \<Rightarrow> if dt_gt deadline_date now then [deadline_date] else []
      | None \<Rightarrow> [])"

definition foundation_deadline :: "datetime \<Rightarrow> string \<Rightarrow> datetime list" where
  "foundation_deadline now match =
     (case strptime (strip match) Month_Day_Comma_Year of
        Some deadline_date \<Rightarrow> if dt_gt deadline_date now then [deadline_date] else []
      | None \<Rightarrow> [])"

text \<open>
  \<^verbatim>\<open>int(s)\<close> on a string: white space around it is dropped, a sign may lead, and the
  digits may be grouped by single underscores. Anything else raises \<^verbatim>\<open>ValueError\<close>:
  the result \<open>None\<close>.
\<close>

fun int_body :: "string \<Rightarrow> bool" where
  "int_body [] = False"
| "int_body [c] = is_digit c"
| "int_body (c # d # r) =
     (is_digit c \<and> (if d = CHR ''_'' then int_body r else int_body (d # r)))"

definition digits_value :: "string \<Rightarrow> int" where
  "digits_value s = foldl (\<lambda>a c. 10 * a + int (digit_val c)) 0 (filter is_digit s)"

definition py_int :: "string \<Rightarrow> int option" where
  "py_int s =
     (let t = strip s
      in case t of
           [] \<Rightarrow> None
         | c # r \<Rightarrow>
             if c = CHR ''-'' then (if int_body r then Some (- digits_value r) else None)
             else if c = CHR ''+'' then (if int_body r then Some (digits_value r) else None)
             else if int_body t then Some (digits_value t) else None)"

definition remove_char :: "char \<Rightarrow> string \<Rightarrow> string" where
  "remove_char c s = filter (\<lambda>x. x \<noteq> c) s"

definition nih_amount :: "string \<Rightarrow> int list" where
  "nih_amount match =
     (case py_int (remove_char CHR ''$'' (remove_char CHR '','' match)) of
        None \<Rightarrow> []
      | Some amount \<Rightarrow> if 1000 \<le> amount \<and> amount \<le> 10000000 then [amount] else [])"

definition nsf_amount :: "string \<Rightarrow> int list" where
  "nsf_amount match =
     (case py_int (remove_char CHR ''$'' (remove_char CHR '','' match)) of
        None \<Rightarrow> []
      | Some amount \<Rightarrow> if 5000 \<le> amount \<and> amount \<le> 5000000 then [amount] else [])"

definition foundation_amount :: "string \<Rightarrow> int list" where
  "foundation_amount match =
     (case py_int (remove_char CHR '','' match) of
        None \<Rightarrow> []
      | Some amount \<Rightarrow> if 1000 \<le> amount \<and> amount \<le> 10000000 then [amount] else [])"

text \<open>
  The page parsers. The argument is \<open>None\<close> when the request or the HTML parser raised:
  the function then returns \<^verbatim>\<open>None\<close>.
\<close>

definition parse_nih_grant_page :: "datetime \<Rightarrow> string \<Rightarrow> page option \<Rightarrow> grant option" where
  "parse_nih_grant_page now link fetched =
     (case fetched of
        None \<Rightarrow> None
      | Some pg \<Rightarrow>
          Some \<lparr>title = (case page_title pg of Some t \<Rightarrow> strip t | None \<Rightarrow> ''Unknown Title''),
                agency = ''NIH'',
                url = link,
                deadlines = Some (concat (map (nih_deadline now) (deadline_matches pg))),
                amounts = concat (map nih_amount (amount_matches pg)),
                description = Some (page_description pg),
                last_updated = Some now,
                source_type = ''nih'',
                eligibility = None,
                urgency = None\<rparr>)"

definition parse_nsf_grant_page :: "datetime \<Rightarrow> string \<Rightarrow> page option \<Rightarrow> grant option" where
  "parse_nsf_grant_page now link fetched =
     (case fetched of
        None \<Rightarrow> None
      | Some pg \<Rightarrow>
          Some \<lparr>title = (case page_title pg of Some t \<Rightarrow> strip t | None \<Rightarrow> ''Unknown NSF Grant''),
                agency = ''NSF'',
                url = link,
                deadlines = Some (concat (map (nsf_deadline now) (deadline_matches pg))),
                amounts = concat (map nsf_amount (amount_matches pg)),
                description = Some (page_description pg),
                last_updated = Some now,
                source_type = ''nsf'',
                eligibility = None,
                urgency = None\<rparr>)"

definition is_nsf_grant_page :: "string \<Rightarrow> bool" where
  "is_nsf_grant_page link =
     list_ex (\<lambda>indicator. str_in indicator (lower link))
       [''solicitation'', ''funding'', ''pubs'', ''nsf.gov'']"

text \<open>
  A section of a foundation page: the text of its first heading, if it has one, its text,
  and the captured tokens.
\<close>

record section_data =
  section_title :: "string option"
  section_text :: string
  section_deadline_matches :: "string list"
  section_amount_matches :: "string list"

definition foundation_section :: "datetime \<Rightarrow> string \<Rightarrow> string \<Rightarrow> section_data \<Rightarrow> grant list" where
  "foundation_section now name link sec =
     (case section_title sec of
        None \<Rightarrow> []
      | Some t \<Rightarrow>
          (let title = strip t;
               deadlines = concat (map (foundation_deadline now) (section_deadline_matches sec));
               amounts = concat (map foundation_amount (section_amount_matches sec))
           in if title \<noteq> [] \<and> (deadlines \<noteq> [] \<or> str_in ''grant'' (lower title))
              then [\<lparr>title = title,
                     agency = name,
                     url = link,
                     deadlines = Some deadlines,
                     amounts = amounts,
                     description = Some (strip (take 300 (section_text sec))),
                     last_updated = Some now,
                     source_type = ''foundation'',
                     eligibility = None,
                     urgency = None\<rparr>]
              else []))"

definition scrape_foundation_page ::
  "datetime \<Rightarrow> string \<Rightarrow> string \<Rightarrow> section_data list option \<Rightarrow> grant list" where
  "scrape_foundation_page now name link fetched =
     (case fetched of
        None \<Rightarrow> []
      | Some grant_sections \<Rightarrow> concat (map (foundation_section now name link) (take 5 grant_sections)))"

section \<open>Collectors\<close>

text \<open>
  What a run finds on the network: the links of the NIH and NSF index pages, each with
  the page behind it, and the sections of a foundation page by its address.
\<close>

record web =
  nih_links :: "(string \<times> page option) list"
  nsf_links :: "(string \<times> page option) list"
  foundation_pages :: "string \<Rightarrow> section_data list option"

definition nih_candidate :: "tracker \<Rightarrow> datetime \<Rightarrow> string \<times> page option \<Rightarrow> grant list" where
  "nih_candidate self now link =
     (case parse_nih_grant_page now (fst link) (snd link) of
        None \<Rightarrow> []
      | Some grant_data \<Rightarrow> if is_relevant_grant self grant_data then [grant_data] else [])"

definition scrape_nih_grants :: "tracker \<Rightarrow> datetime \<Rightarrow> (string \<times> page option) list \<Rightarrow> grant list" where
  "scrape_nih_grants self now grant_links =
     concat (map (nih_candidate self now) (take 20 grant_links))"

definition nsf_candidate :: "tracker \<Rightarrow> datetime \<Rightarrow> string \<times> page option \<Rightarrow> grant list" where
  "nsf_candidate self now link =
     (if is_nsf_grant_page (fst link)
      then (case parse_nsf_grant_page now (fst link) (snd link) of
              None \<Rightarrow> []
            | Some grant_data \<Rightarrow> if is_relevant_grant self grant_data then [grant_data] else [])
      else [])"

definition scrape_nsf_grants :: "tracker \<Rightarrow> datetime \<Rightarrow> (string \<times> page option) list \<Rightarrow> grant list" where
  "scrape_nsf_grants self now funding_links =
     concat (map (nsf_candidate self now) (take 15 funding_links))"

definition foundations :: "(string \<times> string) list" where
  "foundations =
     [(''Brain & Behavior Research Foundation'', ''https://www.bbrfoundation.org/grants-prizes''),
      (''Simons Foundation'', ''https://www.simonsfoundation.org/funding-opportunities/''),
      (''Dana Foundation'', ''https://dana.org/grants/'')]"

definition scrape_foundation_grants ::
  "datetime \<Rightarrow> (string \<Rightarrow> section_data list option) \<Rightarrow> grant list" where
  "scrape_foundation_grants now pages =
     concat (map (\<lambda>foundation.
        scrape_foundation_page now (fst foundation) (snd foundation) (pages (snd foundation)))
       foundations)"

definition static_grants :: "datetime \<Rightarrow> grant list" where
  "static_grants now =
     [\<lparr>title = ''NIH F31 Predoctoral Fellowship'',
       agency = ''NIH'',
       url = ''https://grants.nih.gov/grants/guide/pa-files/PA-23-271.html'',
       deadlines = Some (generate_recurring_deadlines now [''April 8'', ''August 8'', ''December 8'']),
       amounts = [25000, 30000],
       description = Some ''Predoctoral fellowships for graduate students conducting dissertation research.'',
       last_updated = Some now,
       source_type = ''static'',
       eligibility = Some [''graduate student'', ''phd''],
       urgency = None\<rparr>,
      \<lparr>title = ''NIH F32 Postdoctoral Fellowship'',
       agency = ''NIH'',
       url = ''https://grants.nih.gov/grants/guide/pa-files/PA-23-272.html'',
       deadlines = Some (generate_recurring_deadlines now [''April 8'', ''August 8'', ''December 8'']),
       amounts = [50000, 60000],
       description = Some ''Postdoctoral fellowships for recent PhD recipients.'',
       last_updated = Some now,
       source_type = ''static'',
       eligibility = Some [''postdoc'', ''recent phd''],
       urgency = None\<rparr>,
      \<lparr>title = ''NIH K01 Career Development Award'',
       agency = ''NIH'',
       url = ''https://grants.nih.gov/grants/guide/pa-files/PA-23-273.html'',
       deadlines = Some (generate_recurring_deadlines now [''February 12'', ''June 12'', ''October 12'']),
       amounts = [100000, 150000],
       description = Some ''Career development awards for early-career investigators.'',
       last_updated = Some now,
       source_type = ''static'',
       eligibility = Some [''assistant professor'', ''early career''],
       urgency = None\<rparr>,
      \<lparr>title = ''NSF Graduate Research Fellowship'',
       agency = ''NSF'',
       url = ''https://www.nsfgrfp.org/'',
       deadlines = Some [mk_date 2025 10 15],
       amounts = [37000, 46000],
       description = Some ''Fellowship for outstanding graduate students in STEM fields.'',
       last_updated = Some now,
       source_type = ''static'',
       eligibility = Some [''graduate student'', ''early graduate''],
       urgency = None\<rparr>,
      \<lparr>title = ''Brain & Behavior Research Foundation Young Investigator Grant'',
       agency = ''Brain & Behavior Research Foundation'',
       url = ''https://www.bbrfoundation.org/grants-prizes/young-investigator-grants'',
       deadlines = Some [mk_date 2025 9 15],
       amounts = [70000],
       description = Some ''Grants for early-career investigators in brain and behavior research.'',
       last_updated = Some now,
       source_type = ''static'',
       eligibility = Some [''postdoc'', ''assistant professor''],
       urgency = None\<rparr>,
      \<lparr>title = ''Simons Foundation Autism Research Initiative (SFARI)'',
       agency = ''Simons Foundation'',
       url = ''https://www.sfari.org/grant-opportunities/'',
       deadlines = Some (generate_recurring_deadlines now [''January 15'', ''July 15'']),
       amounts = [100000, 300000],
       description = Some ''Research grants focused on autism spectrum disorders.'',
       last_updated = Some now,
       source_type = ''static'',
       eligibility = Some [''assistant professor'', ''associate professor'', ''professor''],
       urgency = None\<rparr>]"

definition scrape_static_opportunities :: "tracker \<Rightarrow> datetime \<Rightarrow> grant list" where
  "scrape_static_opportunities self now = filter (is_relevant_grant self) (static_grants now)"

section \<open>State merger\<close>

datatype error = ValueError | KeyError | OverflowError

text \<open>
  \<^verbatim>\<open>datetime - timedelta(days=n)\<close>: the same time of day \<open>n\<close> days earlier in the
  proleptic Gregorian calendar; \<^verbatim>\<open>OverflowError\<close> (here \<open>None\<close>) before year 1.
\<close>

fun prev_day :: "nat \<times> nat \<times> nat \<Rightarrow> (nat \<times> nat \<times> nat) option" where
  "prev_day (y, m, d) =
     (if 1 < d then Some (y, m, d - 1)
      else if 1 < m then Some (y, m - 1, days_in_month y (m - 1))
      else if 1 < y then Some (y - 1, 12, 31)
      else None)"

fun days_before :: "nat \<Rightarrow> nat \<times> nat \<times> nat \<Rightarrow> (nat \<times> nat \<times> nat) option" where
  "days_before n ymd =
     (if n = 0 then Some ymd
      else (case prev_day ymd of None \<Rightarrow> None | Some p \<Rightarrow> days_before (n - 1) p))"

declare days_before.simps [simp del]

definition sub_days :: "datetime \<Rightarrow> nat \<Rightarrow> datetime option" where
  "sub_days t n =
     (case days_before n (year t, month t, day t) of
        None \<Rightarrow> None
      | Some (y, m, d) \<Rightarrow> Some (t\<lparr>year := y, month := m, day := d\<rparr>))"

definition last_updated_or_min :: "grant \<Rightarrow> datetime" where
  "last_updated_or_min g = (case last_updated g of None \<Rightarrow> datetime_min | Some t \<Rightarrow> t)"

text \<open>
  The start of \<^verbatim>\<open>run\<close>: the list the run starts from, out of the records that
  \<^verbatim>\<open>load_existing_grants\<close> returned. \<open>force_refresh\<close> says that the environment
  variable \<^verbatim>\<open>FORCE_REFRESH\<close> is \<^verbatim>\<open>true\<close>.
\<close>

definition load_baseline :: "bool \<Rightarrow> datetime \<Rightarrow> grant list \<Rightarrow> error + grant list" where
  "load_baseline force_refresh now existing_grants =
     (if \<not> force_refresh
      then (case sub_days now 7 of
              None \<Rightarrow> Inl OverflowError
            | Some week_ago \<Rightarrow>
                Inr (filter (\<lambda>g. dt_gt (last_updated_or_min g) week_ago) existing_grants))
      else Inr [])"

definition collect :: "tracker \<Rightarrow> datetime \<Rightarrow> web \<Rightarrow> grant list" where
  "collect self now w =
     scrape_static_opportunities self now @
     scrape_nih_grants self now (nih_links w) @
     scrape_nsf_grants self now (nsf_links w) @
     scrape_foundation_grants now (foundation_pages w)"

definition identity_key :: "grant \<Rightarrow> string \<times> string" where
  "identity_key g = (strip (lower (title g)), lower (agency g))"

text \<open>
  The dictionary \<^verbatim>\<open>unique_grants\<close> is an association list in insertion order:
  assigning to a key that is present replaces the value where it stands, assigning to a
  new key appends, which is \<open>AList.update\<close>.
\<close>

definition merge_step ::
  "((string \<times> string) \<times> grant) list \<Rightarrow> grant \<Rightarrow> ((string \<times> string) \<times> grant) list" where
  "merge_step unique_grants g =
     (let key = identity_key g
      in case map_of unique_grants key of
           None \<Rightarrow> AList.update key g unique_grants
         | Some kept \<Rightarrow>
             if dt_gt (last_updated_or_min g) (last_updated_or_min kept)
             then AList.update key g unique_grants
             else unique_grants)"

definition remove_duplicates :: "grant list \<Rightarrow> grant list" where
  "remove_duplicates grants = map snd (foldl merge_step [] grants)"

text \<open>
  What the merge is to achieve, as a predicate for the proofs: \<open>g\<close> stands in \<open>gs\<close>,
  every earlier record of its identity key is strictly older and no later one is newer.
\<close>

definition first_latest :: "grant list \<Rightarrow> grant \<Rightarrow> bool" where
  "first_latest gs g =
     (\<exists>pre post. gs = pre @ g # post \<and>
        (\<forall>r\<in>set pre. identity_key r = identity_key g \<longrightarrow>
           dt_lt (last_updated_or_min r) (last_updated_or_min g)) \<and>
        (\<forall>r\<in>set post. identity_key r = identity_key g \<longrightarrow>
           \<not> dt_lt (last_updated_or_min g) (last_updated_or_min r)))"

definition with_urgency :: "datetime \<Rightarrow> grant \<Rightarrow> grant" where
  "with_urgency now g = g\<lparr>urgency := Some (calculate_urgency now g)\<rparr>"

text \<open>
  \<^verbatim>\<open>run\<close> up to the point where every merged record has its urgency: the value of
  \<^verbatim>\<open>self.grants\<close> that the website, the feed and the saved file are made from.
\<close>

definition run_merge :: "tracker \<Rightarrow> bool \<Rightarrow> datetime \<Rightarrow> grant list \<Rightarrow> web \<Rightarrow> error + grant list" where
  "run_merge self force_refresh now existing_grants w =
     (case load_baseline force_refresh now existing_grants of
        Inl e \<Rightarrow> Inl e
      | Inr baseline \<Rightarrow>
          Inr (map (with_urgency now) (remove_duplicates (baseline @ collect self now w))))"

section \<open>Ranker\<close>

text \<open>
  The sort key of \<^verbatim>\<open>generate_html_website\<close>. \<^verbatim>\<open>x.get('deadlines', [datetime.max])\<close>
  gives the default only when the key is absent: on a record whose list of deadlines is
  empty, \<^verbatim>\<open>min\<close> raises \<^verbatim>\<open>ValueError\<close>.
\<close>

type_synonym rank = "int \<times> nat \<times> nat \<times> nat \<times> nat \<times> nat \<times> nat \<times> nat"

definition rank_key :: "grant \<Rightarrow> error + rank" where
  "rank_key x =
     (case urgency x of
        None \<Rightarrow> Inl KeyError
      | Some u \<Rightarrow>
          (case deadlines x of
             None \<Rightarrow> Inr (u, dt_key datetime_max)
           | Some [] \<Rightarrow> Inl ValueError
           | Some (d # ds) \<Rightarrow> Inr (u, dt_key (py_min d ds))))"

fun rank_keys :: "grant list \<Rightarrow> error + (rank \<times> grant) list" where
  "rank_keys [] = Inr []"
| "rank_keys (x # xs) =
     (case rank_key x of
        Inl e \<Rightarrow> Inl e
      | Inr k \<Rightarrow> (case rank_keys xs of Inl e \<Rightarrow> Inl e | Inr ks \<Rightarrow> Inr ((k, x) # ks)))"

text \<open>
  \<^verbatim>\<open>sorted(xs, key=f, reverse=True)\<close> computes the keys once, then sorts stably in
  descending order of the keys: records with equal keys keep their order. That is the
  stable ascending sort of the reversed list, reversed.
\<close>

definition sorted_reverse :: "(rank \<times> grant) list \<Rightarrow> grant list" where
  "sorted_reverse keyed = map snd (rev (sort_key fst (rev keyed)))"

definition sorted_grants :: "datetime \<Rightarrow> grant list \<Rightarrow> error + grant list" where
  "sorted_grants now grants =
     (case rank_keys (map (with_urgency now) grants) of
        Inl e \<Rightarrow> Inl e
      | Inr keyed \<Rightarrow> Inr (sorted_reverse keyed))"

definition the_urgency :: "grant \<Rightarrow> int" where
  "the_urgency g = (case urgency g of None \<Rightarrow> 0 | Some u \<Rightarrow> u)"

definition urgent_grants :: "grant list \<Rightarrow> grant list" where
  "urgent_grants sorted_list = filter (\<lambda>g. 4 \<le> the_urgency g) sorted_list"

definition upcoming_grants :: "grant list \<Rightarrow> grant list" where
  "upcoming_grants sorted_list = filter (\<lambda>g. 2 \<le> the_urgency g \<and> the_urgency g < 4) sorted_list"

definition future_grants :: "grant list \<Rightarrow> grant list" where
  "future_grants sorted_list = filter (\<lambda>g. the_urgency g < 2) sorted_list"

section \<open>Example inputs\<close>

definition example_grant ::
  "string \<Rightarrow> string \<Rightarrow> datetime list option \<Rightarrow> datetime option \<Rightarrow> string list option \<Rightarrow> grant" where
  "example_grant t a ds lu el =
     \<lparr>title = t, agency = a, url = ''https://example.org/'', deadlines = ds, amounts = [],
      description = None, last_updated = lu, source_type = ''nih'', eligibility = el,
      urgency = None\<rparr>"

definition empty_web :: web where
  "empty_web = \<lparr>nih_links = [], nsf_links = [], foundation_pages = (\<lambda>link. None)\<rparr>"

definition example_page :: "string list \<Rightarrow> string list \<Rightarrow> page" where
  "example_page ds ams =
     \<lparr>page_title = Some ''fMRI'', deadline_matches = ds, amount_matches = ams,
      page_description = []\<rparr>"

definition example_section :: "string list \<Rightarrow> string list \<Rightarrow> section_data" where
  "example_section ds ams =
     \<lparr>section_title = Some ''Grant'', section_text = ''Apply'', section_deadline_matches = ds,
      section_amount_matches = ams\<rparr>"

definition example_tracker :: tracker where
  "example_tracker = init_tracker None None None"

definition example_now :: datetime where
  "example_now = mk_date 2026 11 3"

definition amount_web :: web where
  "amount_web =
     \<lparr>nih_links =
        [(''https://grants.nih.gov/a.html'',
          Some (example_page [] [''999'', ''$1,000'', ''10,000,000'', ''10,000,001'', ''2,500.00'']))],
      nsf_links =
        [(''https://www.nsf.gov/a'',
          Some (example_page [] [''4,999'', ''5,000'', ''5,000,000'', ''5,000,001'']))],
      foundation_pages = (\<lambda>link.
        if link = ''https://dana.org/grants/''
        then Some [example_section [] [''999'', ''1,000'', ''10,000,000'', ''10,000,001'']]
        else None)\<rparr>"

definition deadline_web :: web where
  "deadline_web =
     \<lparr>nih_links =
        [(''https://grants.nih.gov/a.html'',
          Some (example_page [''March 15 2030'', ''March 16, 2030'', ''March 17, 2020''] []))],
      nsf_links =
        [(''https://www.nsf.gov/a'',
          Some (example_page [''March 15 2030'', ''March 16, 2030'', ''March 17, 2020''] []))],
      foundation_pages = (\<lambda>link.
        if link = ''https://dana.org/grants/''
        then Some [example_section [''March 15 2030'', ''March 16, 2030'', ''March 17, 2020''] []]
        else None)\<rparr>"

definition near_grant :: grant where
  "near_grant = example_grant ''Near'' ''NIH'' (Some [mk_date 2026 11 10]) (Some example_now) None"

definition far_grant :: grant where
  "far_grant = example_grant ''Far'' ''NIH'' (Some [mk_date 2026 11 20]) (Some example_now) None"

definition undated_grant :: grant where
  "undated_grant = example_grant ''Undated'' ''NIH'' (Some []) (Some example_now) None"

definition older_x :: grant where
  "older_x = example_grant ''Grant X'' ''NIH'' (Some []) (Some (mk_date 2026 10 30)) None"

definition newer_x :: grant where
  "newer_x = example_grant '' grant x'' ''nih'' (Some [mk_date 2027 1 1]) (Some (mk_date 2026 11 1)) None"

definition tied_x :: grant where
  "tied_x = example_grant ''GRANT X '' ''Nih'' None (Some (mk_date 2026 11 1)) None"

definition other_y :: grant where
  "other_y = example_grant ''Grant Y'' ''NSF'' None None None"

definition lacking_x :: grant where
  "lacking_x = example_grant ''Grant X'' ''NIH'' None None None"

definition stale_grant :: grant where
  "stale_grant = example_grant ''x'' ''y'' None (Some (mk_date 2026 10 26)) None"

definition recent_grant :: grant where
  "recent_grant =
     example_grant ''Recent'' ''NIH'' (Some [mk_date 2026 11 2]) (Some (mk_date 2026 11 1)) None"



section \<open>The order of datetimes and the nearest deadline\<close>

lemma dt_key_inject: "dt_key a = dt_key b \<Longrightarrow> a = (b::datetime)"
  by (cases a, cases b) (simp add: dt_key_def)

lemma py_min_mem: "py_min m xs \<in> set (m # xs)"
  by (induction xs arbitrary: m) auto

lemma py_min_le_start: "dt_key (py_min m xs) \<le> dt_key m"
proof (induction xs arbitrary: m)
  case Nil
  show ?case by simp
next
  case (Cons x xs)
  have "dt_key (py_min (if dt_lt x m then x else m) xs) \<le> dt_key (if dt_lt x m then x else m)"
    by (rule Cons.IH)
  also have "\<dots> \<le> dt_key m"
    by (simp add: dt_lt_def less_imp_le)
  finally show ?case by simp
qed

lemma py_min_le: "x \<in> set (m # xs) \<Longrightarrow> dt_key (py_min m xs) \<le> dt_key x"
proof (induction xs arbitrary: m)
  case Nil
  then show ?case by simp
next
  case (Cons y ys)
  let ?m = "if dt_lt y m then y else m"
  have start: "dt_key (py_min ?m ys) \<le> dt_key ?m"
    by (rule py_min_le_start)
  consider "x = m" | "x = y" | "x \<in> set ys"
    using Cons.prems by auto
  then show ?case
  proof cases
    case 1
    have "dt_key ?m \<le> dt_key m" by (simp add: dt_lt_def less_imp_le)
    with start 1 show ?thesis by simp
  next
    case 2
    have "dt_key ?m \<le> dt_key y" by (auto simp: dt_lt_def)
    with start 2 show ?thesis by simp
  next
    case 3
    then have "x \<in> set (?m # ys)" by simp
    from Cons.IH [OF this] show ?thesis by simp
  qed
qed

lemma py_min_unique:
  assumes "m \<in> set (d # ds)" and "\<forall>x\<in>set (d # ds). \<not> dt_lt x m"
  shows "py_min d ds = m"
proof -
  have "dt_key (py_min d ds) \<le> dt_key m"
    using assms(1) by (rule py_min_le)
  moreover have "\<not> dt_lt (py_min d ds) m"
    using assms(2) py_min_mem [of d ds] by blast
  ultimately have "dt_key (py_min d ds) = dt_key m"
    by (simp add: dt_lt_def)
  then show ?thesis by (rule dt_key_inject)
qed

section \<open>Urgency tiers\<close>

text \<open>
  Claim C3. The urgency classifier returns tier 0 for a record without deadlines (the key
  absent or the list empty). Otherwise, with \<open>m\<close> the least deadline of the record and
  \<open>days_until\<close> the \<open>days\<close> field of \<open>m - now\<close>, it returns 5 when
  \<open>days_until \<le> 30\<close>, 4 when \<open>30 < days_until \<le> 90\<close>, 3 when
  \<open>90 < days_until \<le> 180\<close>, 2 when \<open>180 < days_until \<le> 365\<close> and 1 above; the values
  30, 31, 90, 91, 180, 181, 365, 366 give 5, 4, 4, 3, 3, 2, 2, 1.
\<close>

theorem calculate_urgency_tiers:
  "(deadlines g = None \<or> deadlines g = Some [] \<longrightarrow> calculate_urgency now g = 0) \<and>
   (\<forall>ds m days_until.
      deadlines g = Some ds \<and> m \<in> set ds \<and> (\<forall>d\<in>set ds. \<not> dt_lt d m) \<and>
      days_until = days (datetime_sub m now) \<longrightarrow>
        (days_until \<le> 30 \<longrightarrow> calculate_urgency now g = 5) \<and>
        (30 < days_until \<and> days_until \<le> 90 \<longrightarrow> calculate_urgency now g = 4) \<and>
        (90 < days_until \<and> days_until \<le> 180 \<longrightarrow> calculate_urgency now g = 3) \<and>
        (180 < days_until \<and> days_until \<le> 365 \<longrightarrow> calculate_urgency now g = 2) \<and>
        (365 < days_until \<longrightarrow> calculate_urgency now g = 1) \<and>
        (days_until = 30 \<longrightarrow> calculate_urgency now g = 5) \<and>
        (days_until = 31 \<longrightarrow> calculate_urgency now g = 4) \<and>
        (days_until = 90 \<longrightarrow> calculate_urgency now g = 4) \<and>
        (days_until = 91 \<longrightarrow> calculate_urgency now g = 3) \<and>
        (days_until = 180 \<longrightarrow> calculate_urgency now g = 3) \<and>
        (days_until = 181 \<longrightarrow> calculate_urgency now g = 2) \<and>
        (days_until = 365 \<longrightarrow> calculate_urgency now g = 2) \<and>
        (days_until = 366 \<longrightarrow> calculate_urgency now g = 1))"
proof (intro conjI allI impI)
  assume "deadlines g = None \<or> deadlines g = Some []"
  then show "calculate_urgency now g = 0"
    by (auto simp: calculate_urgency_def)
next
  fix ds m days_until
  assume a: "deadlines g = Some ds \<and> m \<in> set ds \<and> (\<forall>d\<in>set ds. \<not> dt_lt d m) \<and>
      days_until = days (datetime_sub m now)"
  then obtain d ds' where ds: "ds = d # ds'"
    by (cases ds) auto
  from a ds have "py_min d ds' = m"
    by (intro py_min_unique) auto
  with a ds have u: "calculate_urgency now g =
    (if days_until \<le> 30 then 5 else if days_until \<le> 90 then 4
     else if days_until \<le> 180 then 3 else if days_until \<le> 365 then 2 else 1)"
    by (simp add: calculate_urgency_def Let_def)
  { assume "days_until \<le> 30" with u show "calculate_urgency now g = 5" by simp }
  { assume "30 < days_until \<and> days_until \<le> 90" with u show "calculate_urgency now g = 4" by simp }
  { assume "90 < days_until \<and> days_until \<le> 180" with u show "calculate_urgency now g = 3" by simp }
  { assume "180 < days_until \<and> days_until \<le> 365" with u show "calculate_urgency now g = 2" by simp }
  { assume "365 < days_until" with u show "calculate_urgency now g = 1" by simp }
  { assume "days_until = 30" with u show "calculate_urgency now g = 5" by simp }
  { assume "days_until = 31" with u show "calculate_urgency now g = 4" by simp }
  { assume "days_until = 90" with u show "calculate_urgency now g = 4" by simp }
  { assume "days_until = 91" with u show "calculate_urgency now g = 3" by simp }
  { assume "days_until = 180" with u show "calculate_urgency now g = 3" by simp }
  { assume "days_until = 181" with u show "calculate_urgency now g = 2" by simp }
  { assume "days_until = 365" with u show "calculate_urgency now g = 2" by simp }
  { assume "days_until = 366" with u show "calculate_urgency now g = 1" by simp }
qed

theorem calculate_urgency_tiers_witness:
  "calculate_urgency (mk_date 2025 1 1)
     (example_grant ''a'' ''b'' (Some [mk_date 2025 3 1, mk_date 2025 1 31]) None None) = 5"
proof -
  let ?g = "example_grant ''a'' ''b'' (Some [mk_date 2025 3 1, mk_date 2025 1 31]) None None"
  have d: "days (datetime_sub (mk_date 2025 1 31) (mk_date 2025 1 1)) = 30"
    by code_simp
  have h: "deadlines ?g = Some [mk_date 2025 3 1, mk_date 2025 1 31] \<and>
      mk_date 2025 1 31 \<in> set [mk_date 2025 3 1, mk_date 2025 1 31] \<and>
      (\<forall>d\<in>set [mk_date 2025 3 1, mk_date 2025 1 31]. \<not> dt_lt d (mk_date 2025 1 31)) \<and>
      (30::int) = days (datetime_sub (mk_date 2025 1 31) (mk_date 2025 1 1))"
    unfolding d by (simp add: example_grant_def dt_lt_def dt_key_def mk_date_def)
  from calculate_urgency_tiers [of ?g "mk_date 2025 1 1"] h show ?thesis
    by blast
qed

section \<open>The merge loop\<close>

lemma dt_lt_trans: "dt_lt a b \<Longrightarrow> dt_lt b c \<Longrightarrow> dt_lt a c"
  unfolding dt_lt_def by (rule less_trans)

lemma dt_lt_not_trans: "\<not> dt_lt a b \<Longrightarrow> dt_lt a c \<Longrightarrow> dt_lt b c"
  unfolding dt_lt_def by (metis less_le_trans not_le)

lemma dt_lt_irrefl: "\<not> dt_lt a a"
  by (simp add: dt_lt_def)

lemma dt_lt_asym: "dt_lt a b \<Longrightarrow> \<not> dt_lt b a"
  unfolding dt_lt_def by (rule less_not_sym)

lemma first_latest_mem: "first_latest gs g \<Longrightarrow> g \<in> set gs"
  by (auto simp: first_latest_def)

lemma first_latest_snoc_keep:
  assumes "first_latest gs g"
    and "identity_key x = identity_key g \<Longrightarrow>
         \<not> dt_lt (last_updated_or_min g) (last_updated_or_min x)"
  shows "first_latest (gs @ [x]) g"
proof -
  from assms(1) obtain pre post where split: "gs = pre @ g # post"
    and pre: "\<forall>r\<in>set pre. identity_key r = identity_key g \<longrightarrow>
           dt_lt (last_updated_or_min r) (last_updated_or_min g)"
    and post: "\<forall>r\<in>set post. identity_key r = identity_key g \<longrightarrow>
           \<not> dt_lt (last_updated_or_min g) (last_updated_or_min r)"
    unfolding first_latest_def by blast
  have 1: "gs @ [x] = pre @ g # (post @ [x])"
    using split by simp
  have 2: "\<forall>r\<in>set (post @ [x]). identity_key r = identity_key g \<longrightarrow>
           \<not> dt_lt (last_updated_or_min g) (last_updated_or_min r)"
    using post assms(2) by auto
  show ?thesis
    unfolding first_latest_def using 1 pre 2 by blast
qed

lemma first_latest_snoc_new:
  assumes "\<forall>r\<in>set gs. identity_key r = identity_key x \<longrightarrow>
             dt_lt (last_updated_or_min r) (last_updated_or_min x)"
  shows "first_latest (gs @ [x]) x"
proof -
  have 1: "gs @ [x] = gs @ x # []" by simp
  have 2: "\<forall>r\<in>set []. identity_key r = identity_key x \<longrightarrow>
           \<not> dt_lt (last_updated_or_min x) (last_updated_or_min r)"
    by simp
  show ?thesis
    unfolding first_latest_def using 1 assms 2 by blast
qed

lemma first_latest_bound:
  assumes "first_latest gs g" and "r \<in> set gs" and "identity_key r = identity_key g"
  shows "\<not> dt_lt (last_updated_or_min g) (last_updated_or_min r)"
proof -
  from assms(1) obtain pre post where split: "gs = pre @ g # post"
    and pre: "\<forall>r\<in>set pre. identity_key r = identity_key g \<longrightarrow>
           dt_lt (last_updated_or_min r) (last_updated_or_min g)"
    and post: "\<forall>r\<in>set post. identity_key r = identity_key g \<longrightarrow>
           \<not> dt_lt (last_updated_or_min g) (last_updated_or_min r)"
    unfolding first_latest_def by blast
  from assms(2) split consider "r \<in> set pre" | "r = g" | "r \<in> set post"
    by auto
  then show ?thesis
  proof cases
    case 1
    with pre assms(3) have "dt_lt (last_updated_or_min r) (last_updated_or_min g)"
      by simp
    then show ?thesis by (rule dt_lt_asym)
  next
    case 2
    then show ?thesis by (simp add: dt_lt_irrefl)
  next
    case 3
    with post assms(3) show ?thesis by simp
  qed
qed

lemma merge_loop_invariant:
  "distinct (map fst (foldl merge_step [] gs)) \<and>
   fst ` set (foldl merge_step [] gs) = identity_key ` set gs \<and>
   (\<forall>k g. map_of (foldl merge_step [] gs) k = Some g \<longrightarrow>
      k = identity_key g \<and> first_latest gs g)"
  (is "?D gs \<and> ?K gs \<and> ?B gs")
proof (induction gs rule: rev_induct)
  case Nil
  show ?case by simp
next
  case (snoc x gs)
  let ?u = "foldl merge_step [] gs"
  let ?k = "identity_key x"
  have D: "distinct (map fst ?u)" and K: "fst ` set ?u = identity_key ` set gs"
    and B: "\<And>k g. map_of ?u k = Some g \<Longrightarrow> k = identity_key g \<and> first_latest gs g"
    using snoc.IH by blast+
  have step: "foldl merge_step [] (gs @ [x]) = merge_step ?u x"
    by simp
  have others: "k = identity_key g \<and> first_latest (gs @ [x]) g"
    if "map_of ?u k = Some g" and "k \<noteq> ?k" for k g
  proof -
    from B [OF that(1)] have kg: "k = identity_key g" and fl: "first_latest gs g"
      by simp_all
    from fl have "first_latest (gs @ [x]) g"
      by (rule first_latest_snoc_keep) (use kg that(2) in simp)
    with kg show ?thesis by simp
  qed
  show ?case
  proof (cases "map_of ?u ?k")
    case None
    then have u': "merge_step ?u x = AList.update ?k x ?u"
      by (simp add: merge_step_def)
    from None have "?k \<notin> fst ` set ?u"
      by (simp add: map_of_eq_None_iff)
    with K have fresh: "\<forall>r\<in>set gs. identity_key r \<noteq> ?k"
      by (metis image_eqI)
    have "?D (gs @ [x])"
      unfolding step u' using D by (rule distinct_update)
    moreover have "?K (gs @ [x])"
      unfolding step u' using K by (simp add: dom_update)
    moreover have "?B (gs @ [x])"
    proof (intro allI impI)
      fix k g
      assume "map_of (foldl merge_step [] (gs @ [x])) k = Some g"
      then have m: "((map_of ?u)(?k \<mapsto> x)) k = Some g"
        unfolding step u' by (simp add: update_conv')
      show "k = identity_key g \<and> first_latest (gs @ [x]) g"
      proof (cases "k = ?k")
        case True
        with m have g: "g = x" by simp
        have "first_latest (gs @ [x]) x"
          by (rule first_latest_snoc_new) (use fresh in simp)
        with g True show ?thesis by simp
      next
        case False
        with m have "map_of ?u k = Some g" by simp
        then show ?thesis using False by (rule others)
      qed
    qed
    ultimately show ?thesis by blast
  next
    case (Some kept)
    from B [OF Some] have kk: "?k = identity_key kept" and fl: "first_latest gs kept"
      by simp_all
    from Some have "?k \<in> fst ` set ?u"
      by (metis map_of_eq_None_iff option.distinct(1))
    with K have kin: "?k \<in> identity_key ` set gs"
      by simp
    show ?thesis
    proof (cases "dt_gt (last_updated_or_min x) (last_updated_or_min kept)")
      case True
      then have newer: "dt_lt (last_updated_or_min kept) (last_updated_or_min x)"
        by (simp add: dt_gt_def)
      from True Some have u': "merge_step ?u x = AList.update ?k x ?u"
        by (simp add: merge_step_def)
      have older: "\<forall>r\<in>set gs. identity_key r = identity_key x \<longrightarrow>
          dt_lt (last_updated_or_min r) (last_updated_or_min x)"
      proof (intro ballI impI)
        fix r
        assume "r \<in> set gs" and "identity_key r = identity_key x"
        with fl kk have "\<not> dt_lt (last_updated_or_min kept) (last_updated_or_min r)"
          by (intro first_latest_bound) simp_all
        then show "dt_lt (last_updated_or_min r) (last_updated_or_min x)"
          using newer by (rule dt_lt_not_trans)
      qed
      have "?D (gs @ [x])"
        unfolding step u' using D by (rule distinct_update)
      moreover have "?K (gs @ [x])"
        unfolding step u' using K kin by (auto simp: dom_update)
      moreover have "?B (gs @ [x])"
      proof (intro allI impI)
        fix k g
        assume "map_of (foldl merge_step [] (gs @ [x])) k = Some g"
        then have m: "((map_of ?u)(?k \<mapsto> x)) k = Some g"
          unfolding step u' by (simp add: update_conv')
        show "k = identity_key g \<and> first_latest (gs @ [x]) g"
        proof (cases "k = ?k")
          case True
          with m have g: "g = x" by simp
          have "first_latest (gs @ [x]) x"
            using older by (rule first_latest_snoc_new)
          with g True show ?thesis by simp
        next
          case False
          with m have "map_of ?u k = Some g" by simp
          then show ?thesis using False by (rule others)
        qed
      qed
      ultimately show ?thesis by blast
    next
      case False
      then have notnewer: "\<not> dt_lt (last_updated_or_min kept) (last_updated_or_min x)"
        by (simp add: dt_gt_def)
      from False Some have u': "merge_step ?u x = ?u"
        by (simp add: merge_step_def)
      have "?D (gs @ [x])"
        unfolding step u' using D .
      moreover have "?K (gs @ [x])"
        unfolding step u' using K kin by auto
      moreover have "?B (gs @ [x])"
      proof (intro allI impI)
        fix k g
        assume "map_of (foldl merge_step [] (gs @ [x])) k = Some g"
        then have old: "map_of ?u k = Some g"
          unfolding step u' .
        show "k = identity_key g \<and> first_latest (gs @ [x]) g"
        proof (cases "k = ?k")
          case True
          with old Some have g: "g = kept" by simp
          from fl have "first_latest (gs @ [x]) kept"
            by (rule first_latest_snoc_keep) (rule notnewer)
          with g True kk show ?thesis by simp
        next
          case False
          with old show ?thesis by (rule others)
        qed
      qed
      ultimately show ?thesis by blast
    qed
  qed
qed

lemma merge_entries:
  assumes "(k, g) \<in> set (foldl merge_step [] gs)"
  shows "k = identity_key g \<and> first_latest gs g"
proof -
  have "distinct (map fst (foldl merge_step [] gs))"
    using merge_loop_invariant by blast
  with assms have "map_of (foldl merge_step [] gs) k = Some g"
    by simp
  then show ?thesis
    using merge_loop_invariant by blast
qed

lemma remove_duplicates_first_latest:
  "g \<in> set (remove_duplicates gs) \<Longrightarrow> first_latest gs g"
  using merge_entries by (fastforce simp: remove_duplicates_def)

lemma remove_duplicates_keys:
  "map identity_key (remove_duplicates gs) = map fst (foldl merge_step [] gs)"
  using merge_entries by (fastforce simp: remove_duplicates_def)

lemma remove_duplicates_distinct: "distinct (map identity_key (remove_duplicates gs))"
  unfolding remove_duplicates_keys using merge_loop_invariant by blast

lemma remove_duplicates_key_set:
  "identity_key ` set (remove_duplicates gs) = identity_key ` set gs"
proof -
  have "identity_key ` set (remove_duplicates gs) = set (map identity_key (remove_duplicates gs))"
    by simp
  also have "\<dots> = fst ` set (foldl merge_step [] gs)"
    unfolding remove_duplicates_keys by simp
  also have "\<dots> = identity_key ` set gs"
    using merge_loop_invariant by blast
  finally show ?thesis .
qed

lemma remove_duplicates_subset: "set (remove_duplicates gs) \<subseteq> set gs"
  using remove_duplicates_first_latest first_latest_mem by blast

lemma identity_key_with_urgency [simp]: "identity_key (with_urgency now g) = identity_key g"
  by (simp add: identity_key_def with_urgency_def)

lemma last_updated_with_urgency [simp]:
  "last_updated_or_min (with_urgency now g) = last_updated_or_min g"
  by (simp add: last_updated_or_min_def with_urgency_def)

lemma remove_duplicates_latest_survives:
  assumes r: "r \<in> set gs"
    and best: "\<forall>r'\<in>set gs. r' \<noteq> r \<and> identity_key r' = identity_key r \<longrightarrow>
                 dt_lt (last_updated_or_min r') (last_updated_or_min r)"
  shows "r \<in> set (remove_duplicates gs)"
proof -
  from r have "identity_key r \<in> identity_key ` set (remove_duplicates gs)"
    unfolding remove_duplicates_key_set by simp
  then obtain g where g: "g \<in> set (remove_duplicates gs)" and k: "identity_key g = identity_key r"
    by auto
  from g have fl: "first_latest gs g"
    by (rule remove_duplicates_first_latest)
  then have "\<not> dt_lt (last_updated_or_min g) (last_updated_or_min r)"
    using r k by (intro first_latest_bound) simp_all
  moreover from fl have "g \<in> set gs"
    by (rule first_latest_mem)
  ultimately have "g = r"
    using best k by blast
  with g show ?thesis by simp
qed

text \<open>
  Claim C2. After the merge no two records share an identity key (the title lowercased and
  trimmed, the agency lowercased), and the keys of the output are those of the input.
  Every survivor is the first of the latest records of its key: each earlier record of
  the key in the merged list (baseline first, then the fresh records, in order) has a
  strictly smaller \<open>last_updated\<close>, and no later one has a greater. So a record whose
  \<open>last_updated\<close> is strictly the greatest of its key survives, and of two records that
  tie the one seen first does.
\<close>

theorem merge_keeps_first_latest:
  "distinct (map identity_key (remove_duplicates gs)) \<and>
   identity_key ` set (remove_duplicates gs) = identity_key ` set gs \<and>
   (\<forall>g\<in>set (remove_duplicates gs). \<exists>pre post. gs = pre @ g # post \<and>
      (\<forall>r\<in>set pre. identity_key r = identity_key g \<longrightarrow>
         dt_lt (last_updated_or_min r) (last_updated_or_min g)) \<and>
      (\<forall>r\<in>set post. identity_key r = identity_key g \<longrightarrow>
         \<not> dt_lt (last_updated_or_min g) (last_updated_or_min r))) \<and>
   (\<forall>r\<in>set gs.
      (\<forall>r'\<in>set gs. r' \<noteq> r \<and> identity_key r' = identity_key r \<longrightarrow>
         dt_lt (last_updated_or_min r') (last_updated_or_min r)) \<longrightarrow>
      r \<in> set (remove_duplicates gs)) \<and>
   (\<forall>out. run_merge self force_refresh now existing_grants w = Inr out \<longrightarrow>
      distinct (map identity_key out))"
proof (intro conjI ballI allI impI)
  show "distinct (map identity_key (remove_duplicates gs))"
    by (rule remove_duplicates_distinct)
  show "identity_key ` set (remove_duplicates gs) = identity_key ` set gs"
    by (rule remove_duplicates_key_set)
next
  fix g
  assume "g \<in> set (remove_duplicates gs)"
  then have "first_latest gs g"
    by (rule remove_duplicates_first_latest)
  then show "\<exists>pre post. gs = pre @ g # post \<and>
      (\<forall>r\<in>set pre. identity_key r = identity_key g \<longrightarrow>
         dt_lt (last_updated_or_min r) (last_updated_or_min g)) \<and>
      (\<forall>r\<in>set post. identity_key r = identity_key g \<longrightarrow>
         \<not> dt_lt (last_updated_or_min g) (last_updated_or_min r))"
    by (simp add: first_latest_def)
next
  fix r
  assume "r \<in> set gs" and "\<forall>r'\<in>set gs. r' \<noteq> r \<and> identity_key r' = identity_key r \<longrightarrow>
         dt_lt (last_updated_or_min r') (last_updated_or_min r)"
  then show "r \<in> set (remove_duplicates gs)"
    by (rule remove_duplicates_latest_survives)
next
  fix out
  assume "run_merge self force_refresh now existing_grants w = Inr out"
  then obtain baseline where
    "out = map (with_urgency now) (remove_duplicates (baseline @ collect self now w))"
    by (auto simp: run_merge_def split: sum.splits)
  then have "map identity_key out =
      map identity_key (remove_duplicates (baseline @ collect self now w))"
    by (simp add: comp_def)
  then show "distinct (map identity_key out)"
    by (simp add: remove_duplicates_distinct)
qed

lemma example_keys:
  "identity_key older_x = (''grant x'', ''nih'')"
  "identity_key newer_x = (''grant x'', ''nih'')"
  "identity_key tied_x = (''grant x'', ''nih'')"
  "identity_key other_y = (''grant y'', ''nsf'')"
  by code_simp+

lemma example_updates:
  "last_updated_or_min older_x = mk_date 2026 10 30"
  "last_updated_or_min newer_x = mk_date 2026 11 1"
  "last_updated_or_min tied_x = mk_date 2026 11 1"
  "last_updated_or_min other_y = datetime_min"
  by (simp_all add: last_updated_or_min_def older_x_def newer_x_def tied_x_def other_y_def
      example_grant_def)

lemma example_merge:
  "remove_duplicates [older_x, other_y, newer_x, tied_x] = [newer_x, other_y]"
  by (simp add: remove_duplicates_def merge_step_def example_keys example_updates
      dt_gt_def dt_lt_def dt_key_def mk_date_def datetime_min_def)

theorem merge_keeps_first_latest_witness:
  "remove_duplicates [older_x, other_y, newer_x, tied_x] = [newer_x, other_y] \<and>
   distinct (map identity_key (remove_duplicates [older_x, other_y, newer_x, tied_x])) \<and>
   identity_key newer_x = identity_key older_x \<and> identity_key tied_x = identity_key newer_x \<and>
   dt_lt (last_updated_or_min older_x) (last_updated_or_min newer_x) \<and>
   last_updated_or_min tied_x = last_updated_or_min newer_x"
  using merge_keeps_first_latest [of "[older_x, other_y, newer_x, tied_x]"]
  by (simp add: example_merge example_keys example_updates dt_lt_def dt_key_def mk_date_def)

section \<open>The calendar\<close>

lemma div_step:
  fixes p k :: int
  assumes k: "0 < k"
  shows "p div k = (p - 1) div k + (if p mod k = 0 then 1 else 0)"
proof -
  have k0: "k \<noteq> 0" using k by simp
  have split: "p div k * k + p mod k = p"
    by (rule div_mult_mod_eq)
  show ?thesis
  proof (cases "p mod k = 0")
    case True
    have "p - 1 = (k - 1) + (p div k - 1) * k"
      using split True by (simp add: left_diff_distrib)
    then have "(p - 1) div k = ((k - 1) + (p div k - 1) * k) div k"
      by (simp only:)
    also have "\<dots> = (p div k - 1) + (k - 1) div k"
      using k0 by (rule div_mult_self1)
    also have "(k - 1) div k = 0"
      using k by (simp add: div_pos_pos_trivial)
    finally show ?thesis using True by simp
  next
    case False
    then have m: "0 < p mod k"
      using k pos_mod_sign [of k p] by linarith
    have b: "p mod k < k"
      using k by (rule pos_mod_bound)
    have "p - 1 = (p mod k - 1) + (p div k) * k"
      using split by linarith
    then have "(p - 1) div k = ((p mod k - 1) + (p div k) * k) div k"
      by (simp only:)
    also have "\<dots> = p div k + (p mod k - 1) div k"
      using k0 by (rule div_mult_self1)
    also have "(p mod k - 1) div k = 0"
      using m b by (simp add: div_pos_pos_trivial)
    finally show ?thesis using False by simp
  qed
qed



lemma mod_400_100: "(p::int) mod 400 = 0 \<Longrightarrow> p mod 100 = 0"
proof -
  assume a: "p mod 400 = 0"
  have "p mod 100 = p mod 400 mod 100"
    by (simp add: mod_mod_cancel)
  with a show ?thesis by simp
qed

lemma mod_100_4: "(p::int) mod 100 = 0 \<Longrightarrow> p mod 4 = 0"
proof -
  assume a: "p mod 100 = 0"
  have "p mod 4 = p mod 100 mod 4"
    by (simp add: mod_mod_cancel)
  with a show ?thesis by simp
qed

lemma year_start_linear:
  fixes p x y z x' y' z' a b c l :: int
  assumes "x = x' + a" and "y = y' + b" and "z = z' + c" and "l = a - b + c"
  shows "p * 365 + x - y + z = (p - 1) * 365 + x' - y' + z' + 365 + l"
  using assms by (simp add: algebra_simps)

lemma leap_flag:
  fixes p :: int
  shows "(if p mod 4 = 0 \<and> (p mod 100 \<noteq> 0 \<or> p mod 400 = 0) then 1 else 0) =
    (if p mod 4 = 0 then 1 else 0) - (if p mod 100 = 0 then 1 else 0) +
    (if p mod 400 = 0 then (1::int) else 0)"
proof (cases "p mod 400 = 0")
  case True
  then have "p mod 100 = 0" by (rule mod_400_100)
  moreover from this have "p mod 4 = 0" by (rule mod_100_4)
  ultimately show ?thesis using True by simp
next
  case False
  show ?thesis
  proof (cases "p mod 100 = 0")
    case True
    then have "p mod 4 = 0" by (rule mod_100_4)
    with True False show ?thesis by simp
  next
    case False
    with \<open>p mod 400 \<noteq> 0\<close> show ?thesis by simp
  qed
qed

lemma year_start_step:
  fixes p :: int
  shows "p * 365 + p div 4 - p div 100 + p div 400 =
    (p - 1) * 365 + (p - 1) div 4 - (p - 1) div 100 + (p - 1) div 400 + 365 +
    (if p mod 4 = 0 \<and> (p mod 100 \<noteq> 0 \<or> p mod 400 = 0) then 1 else 0)"
proof (rule year_start_linear)
  show "p div 4 = (p - 1) div 4 + (if p mod 4 = 0 then 1 else 0)"
    by (rule div_step) simp
  show "p div 100 = (p - 1) div 100 + (if p mod 100 = 0 then 1 else 0)"
    by (rule div_step) simp
  show "p div 400 = (p - 1) div 400 + (if p mod 400 = 0 then 1 else 0)"
    by (rule div_step) simp
  show "(if p mod 4 = 0 \<and> (p mod 100 \<noteq> 0 \<or> p mod 400 = 0) then 1 else 0) =
    (if p mod 4 = 0 then 1 else 0) - (if p mod 100 = 0 then 1 else 0) +
    (if p mod 400 = 0 then (1::int) else 0)"
    by (rule leap_flag)
qed

lemma is_leap_int:
  "is_leap n \<longleftrightarrow> int n mod 4 = 0 \<and> (int n mod 100 \<noteq> 0 \<or> int n mod 400 = 0)"
proof -
  have "int n mod 4 = int (n mod 4)" "int n mod 100 = int (n mod 100)"
    "int n mod 400 = int (n mod 400)"
    by (simp_all add: zmod_int)
  then show ?thesis
    by (simp add: is_leap_def)
qed

lemma days_in_month_pos: "1 \<le> days_in_month y m"
  by (simp add: days_in_month_def)

lemma days_before_month_step:
  assumes "2 \<le> m" and "m \<le> 12"
  shows "days_before_month y m = days_before_month y (m - 1) + int (days_in_month y (m - 1))"
proof -
  have "\<forall>k\<in>set [2..<13].
      days_before_month y k = days_before_month y (k - 1) + int (days_in_month y (k - 1))"
    by (simp add: days_before_month_def days_in_month_def)
  moreover have "m \<in> set [2..<13]"
    using assms by (simp only: set_upt atLeastLessThan_iff) simp
  ultimately show ?thesis by blast
qed

lemma days_before_year_step:
  assumes "2 \<le> y"
  shows "days_before_year y = days_before_year (y - 1) + 365 + (if is_leap (y - 1) then 1 else 0)"
proof -
  have p: "int (y - 1) = int y - 1" and q: "int (y - 1) - 1 = int y - 1 - 1"
    using assms by simp_all
  show ?thesis
    unfolding days_before_year_def Let_def is_leap_int p
    by (rule year_start_step)
qed

lemma prev_day_valid:
  assumes "valid_date y m d" and "prev_day (y, m, d) = Some (y', m', d')"
  shows "valid_date y' m' d' \<and> ymd2ord y' m' d' = ymd2ord y m d - 1"
proof -
  consider "1 < d" | "d = 1" "1 < m" | "d = 1" "m = 1" "1 < y"
    using assms by (auto simp: valid_date_def split: if_splits)
  then show ?thesis
  proof cases
    case 1
    then have "prev_day (y, m, d) = Some (y, m, d - 1)"
      by simp
    with assms(2) have r: "y' = y" "m' = m" "d' = d - 1"
      by simp_all
    have "1 \<le> d - 1" "int (d - 1) = int d - 1"
      using 1 by simp_all
    moreover from assms(1) have "d \<le> days_in_month y m"
      by (simp add: valid_date_def)
    then have "d - 1 \<le> days_in_month y m"
      by (rule le_trans [OF diff_le_self])
    ultimately show ?thesis
      unfolding r using assms(1) by (simp add: valid_date_def ymd2ord_def)
  next
    case 2
    then have "prev_day (y, m, d) = Some (y, m - 1, days_in_month y (m - 1))"
      by simp
    with assms(2) have r: "y' = y" "m' = m - 1" "d' = days_in_month y (m - 1)"
      by simp_all
    from 2 assms have m: "2 \<le> m" "m \<le> 12"
      by (simp_all add: valid_date_def)
    have "1 \<le> m - 1" "m - 1 \<le> 12"
      using m by arith+
    moreover have "1 \<le> days_in_month y (m - 1)"
      by (rule days_in_month_pos)
    ultimately have "valid_date y' m' d'"
      using assms(1) unfolding r by (simp add: valid_date_def)
    moreover have "ymd2ord y' m' d' = ymd2ord y m d - 1"
      unfolding r ymd2ord_def using days_before_month_step [OF m, of y] 2 by simp
    ultimately show ?thesis ..
  next
    case 3
    then have "prev_day (y, m, d) = Some (y - 1, 12, 31)"
      by simp
    with assms(2) have r: "y' = y - 1" "m' = 12" "d' = 31"
      by simp_all
    from 3 have y: "2 \<le> y" by simp
    from assms(1) have "y \<le> 9999"
      by (simp add: valid_date_def)
    with y have "1 \<le> y - 1" "y - 1 \<le> 9999"
      by arith+
    then have "valid_date y' m' d'"
      unfolding r by (simp add: valid_date_def days_in_month_def)
    moreover have "ymd2ord y' m' d' = ymd2ord y m d - 1"
      unfolding r ymd2ord_def using days_before_year_step [OF y] 3
      by (simp add: days_before_month_def)
    ultimately show ?thesis ..
  qed
qed

lemma prev_day_exists:
  assumes "valid_date y m d" and "1 < ymd2ord y m d"
  shows "\<exists>p. prev_day (y, m, d) = Some p"
proof (cases "1 < d \<or> 1 < m \<or> 1 < y")
  case True
  then show ?thesis by auto
next
  case False
  with assms(1) have "y = 1" "m = 1" "d = 1"
    by (auto simp: valid_date_def)
  then have "ymd2ord y m d = 1"
    by (simp add: ymd2ord_def days_before_year_def days_before_month_def)
  with assms(2) show ?thesis by simp
qed

lemma days_before_valid:
  assumes "valid_date y m d" and "days_before n (y, m, d) = Some (y', m', d')"
  shows "valid_date y' m' d' \<and> ymd2ord y' m' d' = ymd2ord y m d - int n"
  using assms
proof (induction n arbitrary: y m d)
  case 0
  then show ?case by (simp add: days_before.simps)
next
  case (Suc n)
  from Suc.prems(2) obtain py pm pd where
    p: "prev_day (y, m, d) = Some (py, pm, pd)" and
    rest: "days_before n (py, pm, pd) = Some (y', m', d')"
    by (subst (asm) days_before.simps) (auto split: option.splits)
  from prev_day_valid [OF Suc.prems(1) p]
  have v: "valid_date py pm pd" and o: "ymd2ord py pm pd = ymd2ord y m d - 1"
    by simp_all
  from Suc.IH [OF v rest] show ?case
    using o by simp
qed

lemma days_before_exists:
  assumes "valid_date y m d" and "int n < ymd2ord y m d"
  shows "\<exists>q. days_before n (y, m, d) = Some q"
  using assms
proof (induction n arbitrary: y m d)
  case 0
  then show ?case by (simp add: days_before.simps)
next
  case (Suc n)
  then have "1 < ymd2ord y m d" by simp
  with Suc.prems(1) obtain py pm pd where p: "prev_day (y, m, d) = Some (py, pm, pd)"
    using prev_day_exists by (metis prod_cases3)
  from prev_day_valid [OF Suc.prems(1) p]
  have v: "valid_date py pm pd" and o: "ymd2ord py pm pd = ymd2ord y m d - 1"
    by simp_all
  from Suc.prems(2) o have "int n < ymd2ord py pm pd" by simp
  from Suc.IH [OF v this] obtain q where "days_before n (py, pm, pd) = Some q" ..
  with p have "days_before (Suc n) (y, m, d) = Some q"
    by (subst days_before.simps) simp
  then show ?case ..
qed

lemma days_before_year_lower:
  assumes "2 \<le> y"
  shows "365 \<le> days_before_year y"
proof -
  define p where "p = int y - 1"
  have p: "1 \<le> p" using assms by (simp add: p_def)
  have "p div 100 \<le> p div 4"
    using p by (simp add: zdiv_mono2)
  moreover have "0 \<le> p div 400"
    using p by simp
  moreover have "365 \<le> p * 365"
    using p by simp
  ultimately show ?thesis
    unfolding days_before_year_def Let_def p_def [symmetric] by linarith
qed

lemma sub_days_ordinal:
  assumes "valid_datetime now" and "sub_days now n = Some w"
  shows "valid_datetime w \<and> toordinal w = toordinal now - int n \<and> hour w = hour now \<and>
         minute w = minute now \<and> second w = second now \<and> microsecond w = microsecond now"
proof -
  from assms(2) obtain y m d where
    b: "days_before n (year now, month now, day now) = Some (y, m, d)" and
    w: "w = now\<lparr>year := y, month := m, day := d\<rparr>"
    by (auto simp: sub_days_def split: option.splits)
  from assms(1) have "valid_date (year now) (month now) (day now)"
    by (simp add: valid_datetime_def)
  from days_before_valid [OF this b] show ?thesis
    using assms(1) by (simp add: w valid_datetime_def toordinal_def)
qed

lemma sub_days_exists:
  assumes "valid_datetime now" and "2 \<le> year now" and "n \<le> 365"
  shows "\<exists>w. sub_days now n = Some w"
proof -
  from assms(1) have v: "valid_date (year now) (month now) (day now)"
    by (simp add: valid_datetime_def)
  then have "1 \<le> month now" "month now \<le> 12" "1 \<le> day now"
    by (simp_all add: valid_date_def)
  then have "0 \<le> days_before_month (year now) (month now)"
    by (auto simp: days_before_month_def nth_Cons' )
  with days_before_year_lower [OF assms(2)] \<open>1 \<le> day now\<close> assms(3)
  have "int n < ymd2ord (year now) (month now) (day now)"
    by (simp add: ymd2ord_def)
  from days_before_exists [OF v this] show ?thesis
    by (auto simp: sub_days_def)
qed

section \<open>Staleness window and missing timestamps\<close>

lemma valid_not_before_min:
  assumes "valid_datetime t"
  shows "\<not> dt_lt t datetime_min"
proof -
  from assms have "1 \<le> year t" "1 \<le> month t" "1 \<le> day t"
    by (simp_all add: valid_datetime_def valid_date_def)
  then show ?thesis
    by (auto simp: dt_lt_def dt_key_def datetime_min_def mk_date_def)
qed

lemma load_baseline_window:
  assumes "sub_days now 7 = Some week_ago"
  shows "load_baseline False now existing_grants =
    Inr (filter (\<lambda>g. dt_gt (last_updated_or_min g) week_ago) existing_grants)"
  using assms by (simp add: load_baseline_def)

lemma run_merge_window:
  assumes "sub_days now 7 = Some week_ago"
  shows "run_merge self False now existing_grants w =
    Inr (map (with_urgency now) (remove_duplicates
      (filter (\<lambda>g. dt_gt (last_updated_or_min g) week_ago) existing_grants @ collect self now w)))"
  by (simp add: run_merge_def load_baseline_window [OF assms])

lemma run_merge_forced:
  "run_merge self True now existing_grants w =
    Inr (map (with_urgency now) (remove_duplicates (collect self now w)))"
  by (simp add: run_merge_def load_baseline_def)

lemma merged_origin:
  assumes "g \<in> set (map (with_urgency now) (remove_duplicates (baseline @ fresh)))"
  shows "\<exists>g0\<in>set baseline \<union> set fresh. g = with_urgency now g0"
proof -
  from assms obtain g0 where "g0 \<in> set (remove_duplicates (baseline @ fresh))"
    and g: "g = with_urgency now g0"
    by auto
  then have "g0 \<in> set (baseline @ fresh)"
    using remove_duplicates_subset by blast
  with g show ?thesis by auto
qed

lemma stale_record_absent:
  assumes old: "\<not> dt_gt (last_updated_or_min r) week_ago"
    and fresh: "\<forall>f\<in>set fresh. identity_key f \<noteq> identity_key r"
  shows "r \<notin> set (map (with_urgency now) (remove_duplicates
      (filter (\<lambda>g. dt_gt (last_updated_or_min g) week_ago) existing_grants @ fresh)))"
proof
  assume "r \<in> set (map (with_urgency now) (remove_duplicates
      (filter (\<lambda>g. dt_gt (last_updated_or_min g) week_ago) existing_grants @ fresh)))"
  then obtain g0 where
    g0: "g0 \<in> set (filter (\<lambda>g. dt_gt (last_updated_or_min g) week_ago) existing_grants) \<union> set fresh"
    and r: "r = with_urgency now g0"
    using merged_origin by blast
  from r have k: "identity_key r = identity_key g0"
    and u: "last_updated_or_min r = last_updated_or_min g0"
    by simp_all
  from g0 show False
  proof
    assume "g0 \<in> set (filter (\<lambda>g. dt_gt (last_updated_or_min g) week_ago) existing_grants)"
    then have "dt_gt (last_updated_or_min g0) week_ago" by simp
    with old u show False by simp
  next
    assume "g0 \<in> set fresh"
    with fresh k show False by auto
  qed
qed

text \<open>
  Claim C5. When the force-full-refresh flag is set the baseline is empty. When it is
  unset, the baseline is exactly the persisted records whose \<open>last_updated\<close> is strictly
  later than \<open>week_ago\<close>, the same time of day seven days before \<open>now\<close> (which exists
  for every valid \<open>now\<close> from year 2 on); and a record that is not later than
  \<open>week_ago\<close> and whose identity key no record collected in this run has is absent from
  the merged output.
\<close>

theorem staleness_window:
  "load_baseline True now existing_grants = Inr [] \<and>
   run_merge self True now existing_grants w =
     Inr (map (with_urgency now) (remove_duplicates (collect self now w))) \<and>
   (valid_datetime now \<and> 2 \<le> year now \<longrightarrow> (\<exists>week_ago. sub_days now 7 = Some week_ago)) \<and>
   (\<forall>week_ago. valid_datetime now \<and> sub_days now 7 = Some week_ago \<longrightarrow>
      toordinal week_ago = toordinal now - 7 \<and> hour week_ago = hour now \<and>
      minute week_ago = minute now \<and> second week_ago = second now \<and>
      microsecond week_ago = microsecond now \<and>
      load_baseline False now existing_grants =
        Inr (filter (\<lambda>g. dt_gt (last_updated_or_min g) week_ago) existing_grants) \<and>
      (\<exists>out. run_merge self False now existing_grants w = Inr out \<and>
         (\<forall>r. \<not> dt_gt (last_updated_or_min r) week_ago \<and>
              (\<forall>f\<in>set (collect self now w). identity_key f \<noteq> identity_key r) \<longrightarrow>
              r \<notin> set out)))"
proof (intro conjI allI impI)
  show "load_baseline True now existing_grants = Inr []"
    by (simp add: load_baseline_def)
  show "run_merge self True now existing_grants w =
     Inr (map (with_urgency now) (remove_duplicates (collect self now w)))"
    by (rule run_merge_forced)
next
  assume "valid_datetime now \<and> 2 \<le> year now"
  then show "\<exists>week_ago. sub_days now 7 = Some week_ago"
    by (intro sub_days_exists) simp_all
next
  fix week_ago
  assume a: "valid_datetime now \<and> sub_days now 7 = Some week_ago"
  then have s: "sub_days now 7 = Some week_ago" and v: "valid_datetime now"
    by simp_all
  from sub_days_ordinal [OF v s]
  show "toordinal week_ago = toordinal now - 7" and "hour week_ago = hour now"
    and "minute week_ago = minute now" and "second week_ago = second now"
    and "microsecond week_ago = microsecond now"
    by simp_all
  show "load_baseline False now existing_grants =
        Inr (filter (\<lambda>g. dt_gt (last_updated_or_min g) week_ago) existing_grants)"
    using s by (rule load_baseline_window)
  let ?out = "map (with_urgency now) (remove_duplicates
      (filter (\<lambda>g. dt_gt (last_updated_or_min g) week_ago) existing_grants @ collect self now w))"
  have "run_merge self False now existing_grants w = Inr ?out"
    using s by (rule run_merge_window)
  moreover have "\<forall>r. \<not> dt_gt (last_updated_or_min r) week_ago \<and>
              (\<forall>f\<in>set (collect self now w). identity_key f \<noteq> identity_key r) \<longrightarrow>
              r \<notin> set ?out"
    using stale_record_absent by blast
  ultimately show "\<exists>out. run_merge self False now existing_grants w = Inr out \<and>
         (\<forall>r. \<not> dt_gt (last_updated_or_min r) week_ago \<and>
              (\<forall>f\<in>set (collect self now w). identity_key f \<noteq> identity_key r) \<longrightarrow>
              r \<notin> set out)"
    by blast
qed

lemma example_now_valid: "valid_datetime example_now"
  by (simp add: example_now_def valid_datetime_def valid_date_def mk_date_def days_in_month_def)

lemma example_week_ago: "sub_days example_now 7 = Some (mk_date 2026 10 27)"
  by (simp add: sub_days_def days_before.simps example_now_def mk_date_def days_in_month_def
      is_leap_def)

theorem staleness_window_witness:
  "valid_datetime example_now \<and> sub_days example_now 7 = Some (mk_date 2026 10 27) \<and>
   toordinal (mk_date 2026 10 27) = toordinal example_now - 7 \<and>
   last_updated stale_grant = Some (mk_date 2026 10 26) \<and>
   last_updated recent_grant = Some (mk_date 2026 11 1) \<and>
   load_baseline False example_now [stale_grant, recent_grant] = Inr [recent_grant]"
proof -
  have h: "valid_datetime example_now \<and> sub_days example_now 7 = Some (mk_date 2026 10 27)"
    using example_now_valid example_week_ago by simp
  have "toordinal (mk_date 2026 10 27) = toordinal example_now - 7 \<and>
    load_baseline False example_now [stale_grant, recent_grant] =
      Inr (filter (\<lambda>g. dt_gt (last_updated_or_min g) (mk_date 2026 10 27))
        [stale_grant, recent_grant])"
    using staleness_window [of example_now "[stale_grant, recent_grant]"] h by blast
  then show ?thesis
    using h by (simp add: stale_grant_def recent_grant_def example_grant_def
        last_updated_or_min_def dt_gt_def dt_lt_def dt_key_def mk_date_def)
qed

section \<open>Extracted fields\<close>

lemma nih_amount_range: "a \<in> set (nih_amount match) \<Longrightarrow> 1000 \<le> a \<and> a \<le> 10000000"
  by (auto simp: nih_amount_def split: option.splits if_splits)

lemma nsf_amount_range: "a \<in> set (nsf_amount match) \<Longrightarrow> 5000 \<le> a \<and> a \<le> 5000000"
  by (auto simp: nsf_amount_def split: option.splits if_splits)

lemma foundation_amount_range:
  "a \<in> set (foundation_amount match) \<Longrightarrow> 1000 \<le> a \<and> a \<le> 10000000"
  by (auto simp: foundation_amount_def split: option.splits if_splits)

lemma nih_candidate_fields:
  assumes "g \<in> set (nih_candidate self now link)"
  shows "\<exists>pg::page. deadlines g = Some (concat (map (nih_deadline now) (deadline_matches pg))) \<and>
              amounts g = concat (map nih_amount (amount_matches pg)) \<and>
              last_updated g = Some now"
proof (cases "snd link")
  case None
  with assms show ?thesis
    by (simp add: nih_candidate_def parse_nih_grant_page_def)
next
  case (Some pg)
  with assms have "g = the (parse_nih_grant_page now (fst link) (Some pg))"
    by (simp add: nih_candidate_def parse_nih_grant_page_def split: if_splits)
  then have "deadlines g = Some (concat (map (nih_deadline now) (deadline_matches pg))) \<and>
      amounts g = concat (map nih_amount (amount_matches pg)) \<and> last_updated g = Some now"
    by (simp add: parse_nih_grant_page_def)
  then show ?thesis by (rule exI)
qed

lemma nsf_candidate_fields:
  assumes "g \<in> set (nsf_candidate self now link)"
  shows "\<exists>pg::page. deadlines g = Some (concat (map (nsf_deadline now) (deadline_matches pg))) \<and>
              amounts g = concat (map nsf_amount (amount_matches pg)) \<and>
              last_updated g = Some now"
proof (cases "snd link")
  case None
  then have "nsf_candidate self now link = []"
    by (simp add: nsf_candidate_def parse_nsf_grant_page_def)
  with assms show ?thesis by simp
next
  case (Some pg)
  with assms have "g = the (parse_nsf_grant_page now (fst link) (Some pg))"
    by (cases "is_nsf_grant_page (fst link)")
      (auto simp: nsf_candidate_def parse_nsf_grant_page_def split: if_splits)
  then have "deadlines g = Some (concat (map (nsf_deadline now) (deadline_matches pg))) \<and>
      amounts g = concat (map nsf_amount (amount_matches pg)) \<and> last_updated g = Some now"
    by (simp add: parse_nsf_grant_page_def)
  then show ?thesis by (rule exI)
qed

lemma foundation_section_fields:
  assumes "g \<in> set (foundation_section now name link sec)"
  shows "deadlines g = Some (concat (map (foundation_deadline now) (section_deadline_matches sec))) \<and>
         amounts g = concat (map foundation_amount (section_amount_matches sec)) \<and>
         last_updated g = Some now"
  using assms by (auto simp: foundation_section_def Let_def split: option.splits if_splits)

lemma scrape_nih_grants_fields:
  assumes "g \<in> set (scrape_nih_grants self now links)"
  shows "\<exists>pg::page. deadlines g = Some (concat (map (nih_deadline now) (deadline_matches pg))) \<and>
              amounts g = concat (map nih_amount (amount_matches pg)) \<and>
              last_updated g = Some now"
proof -
  from assms obtain link where "g \<in> set (nih_candidate self now link)"
    by (auto simp: scrape_nih_grants_def)
  then show ?thesis by (rule nih_candidate_fields)
qed

lemma scrape_nsf_grants_fields:
  assumes "g \<in> set (scrape_nsf_grants self now links)"
  shows "\<exists>pg::page. deadlines g = Some (concat (map (nsf_deadline now) (deadline_matches pg))) \<and>
              amounts g = concat (map nsf_amount (amount_matches pg)) \<and>
              last_updated g = Some now"
proof -
  from assms obtain link where "g \<in> set (nsf_candidate self now link)"
    by (auto simp: scrape_nsf_grants_def)
  then show ?thesis by (rule nsf_candidate_fields)
qed

lemma scrape_foundation_grants_fields:
  assumes "g \<in> set (scrape_foundation_grants now pages)"
  shows "\<exists>sec::section_data. deadlines g =
                 Some (concat (map (foundation_deadline now) (section_deadline_matches sec))) \<and>
               amounts g = concat (map foundation_amount (section_amount_matches sec)) \<and>
               last_updated g = Some now"
proof -
  from assms obtain name link sec where "g \<in> set (foundation_section now name link sec)"
    by (auto simp: scrape_foundation_grants_def scrape_foundation_page_def split: option.splits)
  then have "deadlines g =
        Some (concat (map (foundation_deadline now) (section_deadline_matches sec))) \<and>
      amounts g = concat (map foundation_amount (section_amount_matches sec)) \<and>
      last_updated g = Some now"
    by (rule foundation_section_fields)
  then show ?thesis by (rule exI)
qed

text \<open>
  Claim C9. Every amount of a record extracted from an NIH page or a foundation page lies
  in 1,000 to 10,000,000 inclusive, and every amount of a record extracted from an NSF page
  in 5,000 to 5,000,000 inclusive: a token whose integer value is outside the range of its
  source type is discarded, one inside is kept.
\<close>

theorem amounts_within_bounds:
  "(\<forall>g\<in>set (scrape_nih_grants self now nih). \<forall>a\<in>set (amounts g). 1000 \<le> a \<and> a \<le> 10000000) \<and>
   (\<forall>g\<in>set (scrape_nsf_grants self now nsf). \<forall>a\<in>set (amounts g). 5000 \<le> a \<and> a \<le> 5000000) \<and>
   (\<forall>g\<in>set (scrape_foundation_grants now pages).
      \<forall>a\<in>set (amounts g). 1000 \<le> a \<and> a \<le> 10000000) \<and>
   (\<forall>match a. py_int (remove_char CHR ''$'' (remove_char CHR '','' match)) = Some a \<longrightarrow>
      nih_amount match = (if 1000 \<le> a \<and> a \<le> 10000000 then [a] else []) \<and>
      nsf_amount match = (if 5000 \<le> a \<and> a \<le> 5000000 then [a] else [])) \<and>
   (\<forall>match a. py_int (remove_char CHR '','' match) = Some a \<longrightarrow>
      foundation_amount match = (if 1000 \<le> a \<and> a \<le> 10000000 then [a] else []))"
proof (intro conjI ballI allI impI)
  fix g a
  assume "g \<in> set (scrape_nih_grants self now nih)" and a: "a \<in> set (amounts g)"
  then obtain pg :: page where "amounts g = concat (map nih_amount (amount_matches pg))"
    using scrape_nih_grants_fields by blast
  with a obtain match where "a \<in> set (nih_amount match)"
    by auto
  then have "1000 \<le> a \<and> a \<le> 10000000" by (rule nih_amount_range)
  then show "1000 \<le> a" and "a \<le> 10000000" by simp_all
next
  fix g a
  assume "g \<in> set (scrape_nsf_grants self now nsf)" and a: "a \<in> set (amounts g)"
  then obtain pg :: page where "amounts g = concat (map nsf_amount (amount_matches pg))"
    using scrape_nsf_grants_fields by blast
  with a obtain match where "a \<in> set (nsf_amount match)"
    by auto
  then have "5000 \<le> a \<and> a \<le> 5000000" by (rule nsf_amount_range)
  then show "5000 \<le> a" and "a \<le> 5000000" by simp_all
next
  fix g a
  assume "g \<in> set (scrape_foundation_grants now pages)" and a: "a \<in> set (amounts g)"
  then obtain sec :: section_data where
    "amounts g = concat (map foundation_amount (section_amount_matches sec))"
    using scrape_foundation_grants_fields by blast
  with a obtain match where "a \<in> set (foundation_amount match)"
    by auto
  then have "1000 \<le> a \<and> a \<le> 10000000" by (rule foundation_amount_range)
  then show "1000 \<le> a" and "a \<le> 10000000" by simp_all
next
  fix match a
  assume "py_int (remove_char CHR ''$'' (remove_char CHR '','' match)) = Some a"
  then show "nih_amount match = (if 1000 \<le> a \<and> a \<le> 10000000 then [a] else [])"
    and "nsf_amount match = (if 5000 \<le> a \<and> a \<le> 5000000 then [a] else [])"
    by (simp_all add: nih_amount_def nsf_amount_def)
next
  fix match a
  assume "py_int (remove_char CHR '','' match) = Some a"
  then show "foundation_amount match = (if 1000 \<le> a \<and> a \<le> 10000000 then [a] else [])"
    by (simp add: foundation_amount_def)
qed

lemma example_nih_amounts:
  "map amounts (scrape_nih_grants example_tracker example_now (nih_links amount_web)) =
     [[1000, 10000000]]"
  by code_simp

lemma example_nsf_amounts:
  "map amounts (scrape_nsf_grants example_tracker example_now (nsf_links amount_web)) =
     [[5000, 5000000]]"
  by code_simp

lemma example_foundation_amounts:
  "map amounts (scrape_foundation_grants example_now (foundation_pages amount_web)) =
     [[1000, 10000000]]"
  by code_simp

theorem amounts_within_bounds_witness:
  "map amounts (scrape_nih_grants example_tracker example_now (nih_links amount_web)) =
     [[1000, 10000000]] \<and>
   map amounts (scrape_nsf_grants example_tracker example_now (nsf_links amount_web)) =
     [[5000, 5000000]] \<and>
   map amounts (scrape_foundation_grants example_now (foundation_pages amount_web)) =
     [[1000, 10000000]] \<and>
   list_all (\<lambda>g. list_all (\<lambda>a. 1000 \<le> a \<and> a \<le> 10000000) (amounts g))
     (scrape_nih_grants example_tracker example_now (nih_links amount_web)) \<and>
   list_all (\<lambda>g. list_all (\<lambda>a. 5000 \<le> a \<and> a \<le> 5000000) (amounts g))
     (scrape_nsf_grants example_tracker example_now (nsf_links amount_web))"
proof -
  from amounts_within_bounds [of example_tracker example_now "nih_links amount_web"
      "nsf_links amount_web" "foundation_pages amount_web"]
  have "list_all (\<lambda>g. list_all (\<lambda>a. 1000 \<le> a \<and> a \<le> 10000000) (amounts g))
     (scrape_nih_grants example_tracker example_now (nih_links amount_web))"
    and "list_all (\<lambda>g. list_all (\<lambda>a. 5000 \<le> a \<and> a \<le> 5000000) (amounts g))
     (scrape_nsf_grants example_tracker example_now (nsf_links amount_web))"
    unfolding list_all_iff by blast+
  then show ?thesis
    using example_nih_amounts example_nsf_amounts example_foundation_amounts by blast
qed

section \<open>Deadline formats of the three profiles\<close>

text \<open>
  Claim C6. The NIH parser tries the format \<^verbatim>\<open>'%B %d, %Y'\<close> and then
  \<^verbatim>\<open>'%B %d %Y'\<close>; the NSF and the foundation parser try only the first. The token
  \<^verbatim>\<open>March 15 2030\<close>, which the deadline patterns of all three capture (their comma
  is optional), parses in the second format: the NIH parser keeps the date, the other two
  drop it. A token that fails the formats tried is dropped without an error in all
  three.
\<close>

theorem deadline_formats_by_profile:
  "strptime (strip ''March 15 2030'') Month_Day_Comma_Year = None \<and>
   strptime (strip ''March 15 2030'') Month_Day_Year = Some (mk_date 2030 3 15) \<and>
   nih_deadline example_now ''March 15 2030'' = [mk_date 2030 3 15] \<and>
   nsf_deadline example_now ''March 15 2030'' = [] \<and>
   foundation_deadline example_now ''March 15 2030'' = [] \<and>
   map deadlines (scrape_nih_grants example_tracker example_now (nih_links deadline_web)) =
     [Some [mk_date 2030 3 15, mk_date 2030 3 16]] \<and>
   map deadlines (scrape_nsf_grants example_tracker example_now (nsf_links deadline_web)) =
     [Some [mk_date 2030 3 16]] \<and>
   map deadlines (scrape_foundation_grants example_now (foundation_pages deadline_web)) =
     [Some [mk_date 2030 3 16]]"
  by code_simp

section \<open>Ranking\<close>

lemmas datetime_eval = dt_lt_def dt_gt_def dt_key_def mk_date_def datetime_min_def
  datetime_max_def is_leap_def days_in_month_def days_before_year_def days_before_month_def
  toordinal_def ymd2ord_def timedelta_norm_def day_seconds_def datetime_sub_def

text \<open>
  Claim C4. The sort is by the pair (urgency, nearest deadline) with \<^verbatim>\<open>reverse=True\<close>,
  which reverses both components: of two records of tier 5 the one whose nearest deadline
  is later comes first, whatever their order in the input. A record whose list of
  deadlines is empty makes the sort raise \<^verbatim>\<open>ValueError\<close>.
\<close>

theorem ranker_order_at_equal_tier:
  "calculate_urgency example_now near_grant = 5 \<and>
   calculate_urgency example_now far_grant = 5 \<and>
   deadlines near_grant = Some [mk_date 2026 11 10] \<and>
   deadlines far_grant = Some [mk_date 2026 11 20] \<and>
   sorted_grants example_now [near_grant, far_grant] =
     Inr [with_urgency example_now far_grant, with_urgency example_now near_grant] \<and>
   sorted_grants example_now [far_grant, near_grant] =
     Inr [with_urgency example_now far_grant, with_urgency example_now near_grant] \<and>
   sorted_grants example_now [near_grant, undated_grant] = Inl ValueError"
  by (simp add: datetime_eval calculate_urgency_def near_grant_def far_grant_def
      undated_grant_def example_grant_def example_now_def sorted_grants_def with_urgency_def
      rank_key_def sorted_reverse_def)

section \<open>Records without a timestamp\<close>

lemma static_last_updated:
  assumes "g \<in> set (static_grants now)"
  shows "last_updated g = Some now"
proof -
  have "list_all (\<lambda>g. last_updated g = Some now) (static_grants now)"
    by (simp add: static_grants_def)
  with assms show ?thesis
    by (simp add: list_all_iff)
qed

lemma collect_last_updated:
  assumes "g \<in> set (collect self now w)"
  shows "last_updated g = Some now"
proof -
  from assms consider "g \<in> set (scrape_static_opportunities self now)"
    | "g \<in> set (scrape_nih_grants self now (nih_links w))"
    | "g \<in> set (scrape_nsf_grants self now (nsf_links w))"
    | "g \<in> set (scrape_foundation_grants now (foundation_pages w))"
    by (auto simp: collect_def)
  then show ?thesis
  proof cases
    case 1
    then have "g \<in> set (static_grants now)"
      by (simp add: scrape_static_opportunities_def)
    then show ?thesis by (rule static_last_updated)
  next
    case 2
    then show ?thesis using scrape_nih_grants_fields by blast
  next
    case 3
    then show ?thesis using scrape_nsf_grants_fields by blast
  next
    case 4
    then show ?thesis using scrape_foundation_grants_fields by blast
  qed
qed

text \<open>
  Claim C10. A record without \<open>last_updated\<close> counts as carrying \<open>datetime.min\<close>. The
  staleness filter never lets it into the baseline. Every timestamp that a run merges is
  later than \<open>datetime.min\<close> (the baseline's are later than \<open>week_ago\<close>, the fresh
  records carry \<open>now\<close>); among records whose timestamps are, a record without the field
  loses to any record of its identity key that has one, and it survives only when every
  record of its key lacks the field and it is the first of them.
\<close>

theorem missing_last_updated:
  "(last_updated g = None \<longrightarrow> last_updated_or_min g = datetime_min) \<and>
   (\<forall>baseline. valid_datetime now \<and>
      load_baseline force_refresh now existing_grants = Inr baseline \<longrightarrow>
      (\<forall>b\<in>set baseline. last_updated b \<noteq> None) \<and>
      (dt_gt now datetime_min \<longrightarrow>
         (\<forall>r\<in>set (baseline @ collect self now w).
            \<exists>t. last_updated r = Some t \<and> dt_gt t datetime_min))) \<and>
   ((\<forall>r\<in>set gs. \<forall>t. last_updated r = Some t \<longrightarrow> dt_gt t datetime_min) \<longrightarrow>
      (\<forall>l\<in>set gs. last_updated l = None \<and>
           (\<exists>r\<in>set gs. identity_key r = identity_key l \<and> last_updated r \<noteq> None) \<longrightarrow>
           l \<notin> set (remove_duplicates gs)) \<and>
      (\<forall>s\<in>set (remove_duplicates gs). last_updated s = None \<longrightarrow>
           (\<forall>r\<in>set gs. identity_key r = identity_key s \<longrightarrow> last_updated r = None) \<and>
           (\<exists>pre post. gs = pre @ s # post \<and>
              (\<forall>r\<in>set pre. identity_key r \<noteq> identity_key s))))"
proof (intro conjI allI impI)
  assume "last_updated g = None"
  then show "last_updated_or_min g = datetime_min"
    by (simp add: last_updated_or_min_def)
next
  fix baseline
  assume a: "valid_datetime now \<and> load_baseline force_refresh now existing_grants = Inr baseline"
  have window: "\<exists>t. last_updated b = Some t \<and> dt_gt t datetime_min" if b: "b \<in> set baseline" for b
  proof (cases force_refresh)
    case True
    with a b show ?thesis by (simp add: load_baseline_def)
  next
    case False
    with a obtain week_ago where s: "sub_days now 7 = Some week_ago"
      and base: "baseline = filter (\<lambda>g. dt_gt (last_updated_or_min g) week_ago) existing_grants"
      by (auto simp: load_baseline_def split: option.splits)
    from a s have "valid_datetime week_ago"
      using sub_days_ordinal by blast
    then have "\<not> dt_lt week_ago datetime_min"
      by (rule valid_not_before_min)
    moreover from b base have "dt_lt week_ago (last_updated_or_min b)"
      by (simp add: dt_gt_def)
    ultimately have "dt_lt datetime_min (last_updated_or_min b)"
      by (rule dt_lt_not_trans)
    then show ?thesis
      by (cases "last_updated b") (auto simp: last_updated_or_min_def dt_gt_def dt_lt_irrefl)
  qed
  show "\<forall>b\<in>set baseline. last_updated b \<noteq> None"
  proof
    fix b
    assume "b \<in> set baseline"
    then obtain t where "last_updated b = Some t"
      using window by blast
    then show "last_updated b \<noteq> None" by simp
  qed
  show "\<forall>r\<in>set (baseline @ collect self now w).
            \<exists>t. last_updated r = Some t \<and> dt_gt t datetime_min" if later: "dt_gt now datetime_min"
  proof
    fix r
    assume "r \<in> set (baseline @ collect self now w)"
    then consider "r \<in> set baseline" | "r \<in> set (collect self now w)"
      by auto
    then show "\<exists>t. last_updated r = Some t \<and> dt_gt t datetime_min"
    proof cases
      case 1
      then show ?thesis by (rule window)
    next
      case 2
      then have "last_updated r = Some now"
        by (rule collect_last_updated)
      with later show ?thesis by simp
    qed
  qed
next
  assume later: "\<forall>r\<in>set gs. \<forall>t. last_updated r = Some t \<longrightarrow> dt_gt t datetime_min"
  have group: "last_updated r = None"
    if s: "s \<in> set (remove_duplicates gs)" and n: "last_updated s = None"
      and r: "r \<in> set gs" and k: "identity_key r = identity_key s" for s r
  proof (cases "last_updated r")
    case None
    then show ?thesis .
  next
    case (Some t)
    with later r have "dt_gt t datetime_min" by blast
    with Some n have "dt_lt (last_updated_or_min s) (last_updated_or_min r)"
      by (simp add: last_updated_or_min_def dt_gt_def)
    moreover from s have "first_latest gs s"
      by (rule remove_duplicates_first_latest)
    then have "\<not> dt_lt (last_updated_or_min s) (last_updated_or_min r)"
      using r k by (rule first_latest_bound)
    ultimately show ?thesis by simp
  qed
  show "\<forall>l\<in>set gs. last_updated l = None \<and>
           (\<exists>r\<in>set gs. identity_key r = identity_key l \<and> last_updated r \<noteq> None) \<longrightarrow>
           l \<notin> set (remove_duplicates gs)"
  proof (intro ballI impI notI)
    fix l
    assume h: "last_updated l = None \<and>
        (\<exists>r\<in>set gs. identity_key r = identity_key l \<and> last_updated r \<noteq> None)"
      and l: "l \<in> set (remove_duplicates gs)"
    from h obtain r where r: "r \<in> set gs" and k: "identity_key r = identity_key l"
      and v: "last_updated r \<noteq> None"
      by blast
    from h have "last_updated l = None" by simp
    with l have "last_updated r = None"
      using r k by (rule group)
    with v show False by simp
  qed
  show "\<forall>s\<in>set (remove_duplicates gs). last_updated s = None \<longrightarrow>
           (\<forall>r\<in>set gs. identity_key r = identity_key s \<longrightarrow> last_updated r = None) \<and>
           (\<exists>pre post. gs = pre @ s # post \<and>
              (\<forall>r\<in>set pre. identity_key r \<noteq> identity_key s))"
  proof (intro ballI impI conjI)
    fix s r
    assume "s \<in> set (remove_duplicates gs)" and "last_updated s = None"
      and "r \<in> set gs" and "identity_key r = identity_key s"
    then show "last_updated r = None" by (rule group)
  next
    fix s
    assume s: "s \<in> set (remove_duplicates gs)" and n: "last_updated s = None"
    from s have "first_latest gs s"
      by (rule remove_duplicates_first_latest)
    then obtain pre post where split: "gs = pre @ s # post"
      and pre: "\<forall>r\<in>set pre. identity_key r = identity_key s \<longrightarrow>
             dt_lt (last_updated_or_min r) (last_updated_or_min s)"
      unfolding first_latest_def by blast
    have "identity_key r \<noteq> identity_key s" if r: "r \<in> set pre" for r
    proof
      assume k: "identity_key r = identity_key s"
      from r split have "r \<in> set gs" by simp
      with s n have "last_updated r = None"
        using k by (rule group)
      moreover from pre r k have "dt_lt (last_updated_or_min r) (last_updated_or_min s)"
        by simp
      ultimately show False
        using n by (simp add: last_updated_or_min_def dt_lt_irrefl)
    qed
    with split show "\<exists>pre post. gs = pre @ s # post \<and>
              (\<forall>r\<in>set pre. identity_key r \<noteq> identity_key s)"
      by blast
  qed
qed

lemma lacking_key: "identity_key lacking_x = (''grant x'', ''nih'')"
  by code_simp

lemma lacking_update: "last_updated_or_min lacking_x = datetime_min"
  by (simp add: last_updated_or_min_def lacking_x_def example_grant_def)

lemma lacking_loses: "remove_duplicates [lacking_x, older_x] = [older_x]"
  by (simp add: remove_duplicates_def merge_step_def lacking_key lacking_update example_keys
      example_updates dt_gt_def dt_lt_def dt_key_def mk_date_def datetime_min_def)

theorem missing_last_updated_witness:
  "last_updated lacking_x = None \<and> last_updated older_x = Some (mk_date 2026 10 30) \<and>
   identity_key older_x = identity_key lacking_x \<and>
   lacking_x \<notin> set (remove_duplicates [lacking_x, older_x]) \<and>
   remove_duplicates [lacking_x, older_x] = [older_x] \<and>
   load_baseline False example_now [lacking_x] = Inr []"
proof -
  have n: "last_updated lacking_x = None"
    and o: "last_updated older_x = Some (mk_date 2026 10 30)"
    by (simp_all add: lacking_x_def older_x_def example_grant_def)
  have k: "identity_key older_x = identity_key lacking_x"
    by (simp add: lacking_key example_keys)
  have "dt_gt (mk_date 2026 10 30) datetime_min"
    by (simp add: dt_gt_def dt_lt_def dt_key_def mk_date_def datetime_min_def)
  with n o have later:
    "\<forall>r\<in>set [lacking_x, older_x]. \<forall>t. last_updated r = Some t \<longrightarrow> dt_gt t datetime_min"
    by simp
  have collide: "last_updated lacking_x = None \<and>
      (\<exists>r\<in>set [lacking_x, older_x]. identity_key r = identity_key lacking_x \<and>
         last_updated r \<noteq> None)"
    using n o k by simp
  have mem: "lacking_x \<in> set [lacking_x, older_x]"
    by simp
  from missing_last_updated [of lacking_x example_now False "[]" example_tracker empty_web
      "[lacking_x, older_x]"] later
  have "\<forall>l\<in>set [lacking_x, older_x]. last_updated l = None \<and>
      (\<exists>r\<in>set [lacking_x, older_x]. identity_key r = identity_key l \<and>
         last_updated r \<noteq> None) \<longrightarrow>
      l \<notin> set (remove_duplicates [lacking_x, older_x])"
    by blast
  with mem collide have absent: "lacking_x \<notin> set (remove_duplicates [lacking_x, older_x])"
    by blast
  have "load_baseline False example_now [lacking_x] = Inr []"
    by (simp add: load_baseline_def example_week_ago lacking_update
        dt_gt_def dt_lt_def dt_key_def mk_date_def datetime_min_def)
  with absent n o k lacking_loses show ?thesis
    by blast
qed

section \<open>Relevance filter\<close>













section \<open>The date parser on a string that ends with the year\<close>

lemma strptime_split:
  "strptime s fmt =
     (case month_day_part fmt s of
        None \<Rightarrow> None
      | Some (m, d, r4) \<Rightarrow>
          (case match_year r4 of
             None \<Rightarrow> None
           | Some (y, r5) \<Rightarrow>
               if r5 = [] \<and> 1 \<le> y \<and> d \<le> days_in_month y m then Some (mk_date y m d)
               else None))"
  by (simp add: strptime_def month_day_part_def split: option.splits prod.splits)

subsection \<open>The month\<close>

lemma match_month_sound:
  "match_month names t = Some (m, r) \<Longrightarrow>
   \<exists>name. (m, name) \<in> set names \<and> lower (take (length name) t) = name \<and>
          r = drop (length name) t"
  by (induction names t rule: match_month.induct) (auto split: if_splits)

lemma match_month_complete:
  assumes "(m, name) \<in> set names" and "lower (take (length name) t) = name"
    and "\<forall>(i, a)\<in>set names. \<forall>(j, b)\<in>set names. take (length a) b = a \<longrightarrow> (i, a) = (j, b)"
  shows "match_month names t = Some (m, drop (length name) t)"
  using assms
proof (induction names t rule: match_month.induct)
  case (1 s)
  then show ?case by simp
next
  case (2 k n names s)
  show ?case
  proof (cases "lower (take (length n) s) = n")
    case True
    have a: "take (length name) (lower s) = name" and b: "take (length n) (lower s) = n"
      using True "2.prems"(2) by (simp_all add: lower_def take_map)
    have "(k, n) = (m, name)"
    proof (cases "length n \<le> length name")
      case True
      have "take (length n) name = take (length n) (take (length name) (lower s))"
        using a by simp
      also have "\<dots> = n"
        using True b by (simp add: min_def)
      finally have "take (length n) name = n" .
      with "2.prems"(1,3) show ?thesis by fastforce
    next
      case False
      have "take (length name) n = take (length name) (take (length n) (lower s))"
        using b by simp
      also have "\<dots> = name"
        using False a by (simp add: min_def)
      finally have "take (length name) n = name" .
      with "2.prems"(1,3) show ?thesis by fastforce
    qed
    with True show ?thesis by simp
  next
    case False
    with "2.prems"(2) have "(m, name) \<noteq> (k, n)" by auto
    with "2.prems"(1) have mem: "(m, name) \<in> set names" by auto
    have "\<forall>(i, a)\<in>set names. \<forall>(j, b)\<in>set names. take (length a) b = a \<longrightarrow> (i, a) = (j, b)"
      using "2.prems"(3) by auto
    with "2.IH" [OF False mem "2.prems"(2)] False show ?thesis by simp
  qed
qed

lemma month_names_prefix_free:
  "\<forall>(i, a)\<in>set month_names. \<forall>(j, b)\<in>set month_names.
     take (length a) b = a \<longrightarrow> (i, a) = (j, b)"
  by code_simp

lemma month_names_range: "(m, name) \<in> set month_names \<Longrightarrow> 1 \<le> m \<and> m \<le> 12"
  by (auto simp: month_names_def)

lemma match_month_local:
  assumes "match_month month_names (u @ v) = Some (m, r)" and "length v < length r"
  shows "\<exists>b. r = b @ v \<and> (\<forall>v'. match_month month_names (u @ v') = Some (m, b @ v'))"
proof -
  from match_month_sound [OF assms(1)] obtain name where
    mem: "(m, name) \<in> set month_names" and
    test: "lower (take (length name) (u @ v)) = name" and
    r: "r = drop (length name) (u @ v)"
    by blast
  from r assms(2) have n: "length name < length u"
    by simp
  then have r': "r = drop (length name) u @ v"
    using r by simp
  have "match_month month_names (u @ v') = Some (m, drop (length name) u @ v')" for v'
  proof -
    from test n have "lower (take (length name) (u @ v')) = name"
      by simp
    from match_month_complete [OF mem this month_names_prefix_free]
    show ?thesis using n by simp
  qed
  with r' show ?thesis by blast
qed

subsection \<open>White space\<close>

lemma skip_spaces1_shorter:
  "skip_spaces1 x = Some r \<Longrightarrow> length r < length x \<and> (\<exists>p. x = p @ r)"
proof -
  assume a: "skip_spaces1 x = Some r"
  then obtain c cs where x: "x = c # cs" and r: "r = dropWhile is_space cs"
    by (auto simp: skip_spaces1_def split: list.splits if_splits)
  have "cs = takeWhile is_space cs @ r"
    unfolding r by simp
  then have "x = (c # takeWhile is_space cs) @ r"
    using x by simp
  moreover have "length r \<le> length cs"
    unfolding r by (rule length_dropWhile_le)
  then have "length r < length x"
    using x by simp
  ultimately show ?thesis by blast
qed

lemma skip_spaces1_local:
  assumes "skip_spaces1 (a @ v) = Some r" and "length v < length r"
  shows "\<exists>b. r = b @ v \<and> (\<forall>v'. skip_spaces1 (a @ v') = Some (b @ v'))"
proof (cases a)
  case Nil
  with assms(1) have "length r < length v"
    using skip_spaces1_shorter by fastforce
  with assms(2) show ?thesis by simp
next
  case (Cons c cs)
  with assms(1) have c: "is_space c" and r: "r = dropWhile is_space (cs @ v)"
    by (auto simp: skip_spaces1_def split: if_splits)
  show ?thesis
  proof (cases "\<forall>x\<in>set cs. is_space x")
    case True
    then have "dropWhile is_space (cs @ v) = dropWhile is_space v"
      by (intro dropWhile_append2) simp
    with r have "r = dropWhile is_space v"
      by simp
    then have "length r \<le> length v"
      by (simp add: length_dropWhile_le)
    with assms(2) show ?thesis by simp
  next
    case False
    then obtain x where x: "x \<in> set cs" "\<not> is_space x"
      by blast
    have split: "dropWhile is_space (cs @ w) = dropWhile is_space cs @ w" for w
      using x by (rule dropWhile_append1)
    with r have "r = dropWhile is_space cs @ v"
      by simp
    moreover have "skip_spaces1 (a @ v') = Some (dropWhile is_space cs @ v')" for v'
      using c Cons by (simp add: skip_spaces1_def split)
    ultimately show ?thesis by blast
  qed
qed

lemma skip_spaces1_last:
  assumes "skip_spaces1 (a @ v) = Some v" and "v' \<noteq> []" and "\<not> is_space (hd v')"
  shows "skip_spaces1 (a @ v') = Some v'"
proof (cases a)
  case Nil
  with assms(1) have "length v < length v"
    using skip_spaces1_shorter by fastforce
  then show ?thesis by simp
next
  case (Cons c cs)
  with assms(1) have c: "is_space c" and r: "v = dropWhile is_space (cs @ v)"
    by (auto simp: skip_spaces1_def split: if_splits)
  have all: "\<forall>x\<in>set cs. is_space x"
  proof (rule ccontr)
    assume "\<not> (\<forall>x\<in>set cs. is_space x)"
    then obtain x where x: "x \<in> set cs" "\<not> is_space x"
      by blast
    then have "dropWhile is_space (cs @ v) = dropWhile is_space cs @ v"
      by (rule dropWhile_append1)
    with r have "v = dropWhile is_space cs @ v"
      by simp
    then have "dropWhile is_space cs = []" by simp
    then have "\<forall>x\<in>set cs. is_space x"
      by (simp add: dropWhile_eq_Nil_conv)
    with x show False by blast
  qed
  then have "dropWhile is_space (cs @ v') = dropWhile is_space v'"
    by (intro dropWhile_append2) simp
  moreover from assms(2,3) have "dropWhile is_space v' = v'"
    by (cases v') simp_all
  ultimately show ?thesis
    using c Cons by (simp add: skip_spaces1_def)
qed

subsection \<open>The day\<close>

lemma match_day_shorter:
  "match_day x = Some (d, r) \<Longrightarrow> length r < length x \<and> (\<exists>p. x = p @ r)"
  by (induction x rule: match_day.induct) (auto split: if_splits)

lemma match_day_local:
  assumes "match_day (a @ v) = Some (d, r)" and "length v < length r"
  shows "\<exists>b. r = b @ v \<and> (\<forall>v'. match_day (a @ v') = Some (d, b @ v'))"
proof -
  have long: "2 \<le> length a"
  proof (rule ccontr)
    assume "\<not> 2 \<le> length a"
    then have "length a = 0 \<or> length a = 1"
      by arith
    then consider "a = []" | x where "a = [x]"
      by (auto simp: length_Suc_conv)
    then show False
    proof cases
      case 1
      with assms(1) have "length r < length v"
        using match_day_shorter by fastforce
      with assms(2) show False by simp
    next
      case 2
      with assms(1) have "match_day (x # v) = Some (d, r)" by simp
      then have "length r \<le> length v"
        by (cases v) (auto split: if_splits)
      with assms(2) show False by simp
    qed
  qed
  then obtain x y c where a: "a = x # y # c"
    by (cases a; cases "tl a") auto
  show ?thesis
  proof (cases "two_digit_day x y")
    case True
    with assms(1) a have "r = c @ v" and "d = 10 * digit_val x + digit_val y"
      by simp_all
    moreover have "match_day (a @ v') = Some (10 * digit_val x + digit_val y, c @ v')" for v'
      using True a by simp
    ultimately show ?thesis by blast
  next
    case False
    with assms(1) a have "r = (y # c) @ v" and "d = digit_val x"
      and dig: "is_digit x \<and> x \<noteq> CHR ''0''"
      by (auto split: if_splits)
    moreover have "match_day (a @ v') = Some (digit_val x, (y # c) @ v')" for v'
      using False a dig by simp
    ultimately show ?thesis by blast
  qed
qed

subsection \<open>The separator before the year\<close>

lemma match_sep_shorter:
  "match_sep fmt x = Some r \<Longrightarrow> length r < length x \<and> (\<exists>p. x = p @ r)"
proof (cases fmt)
  case Month_Day_Year
  assume "match_sep fmt x = Some r"
  with Month_Day_Year show ?thesis
    using skip_spaces1_shorter by (simp add: match_sep_def)
next
  case Month_Day_Comma_Year
  assume "match_sep fmt x = Some r"
  with Month_Day_Comma_Year obtain c cs where x: "x = c # cs" and s: "skip_spaces1 cs = Some r"
    by (auto simp: match_sep_def split: list.splits if_splits)
  from skip_spaces1_shorter [OF s] obtain p where "length r < length cs" and "cs = p @ r"
    by blast
  with x have "length r < length x" and "x = (c # p) @ r"
    by simp_all
  then show ?thesis by blast
qed

lemma match_sep_last:
  assumes "match_sep fmt (a @ v) = Some v" and "v' \<noteq> []" and "\<not> is_space (hd v')"
  shows "match_sep fmt (a @ v') = Some v'"
proof (cases fmt)
  case Month_Day_Year
  with assms(1) have "skip_spaces1 (a @ v) = Some v"
    by (simp add: match_sep_def)
  then have "skip_spaces1 (a @ v') = Some v'"
    using assms(2,3) by (rule skip_spaces1_last)
  with Month_Day_Year show ?thesis
    by (simp add: match_sep_def)
next
  case Month_Day_Comma_Year
  show ?thesis
  proof (cases a)
    case Nil
    with assms(1) have "length v < length v"
      using match_sep_shorter by fastforce
    then show ?thesis by simp
  next
    case (Cons c cs)
    with assms(1) Month_Day_Comma_Year have c: "c = CHR '',''"
      and s: "skip_spaces1 (cs @ v) = Some v"
      by (auto simp: match_sep_def split: if_splits)
    from s have "skip_spaces1 (cs @ v') = Some v'"
      using assms(2,3) by (rule skip_spaces1_last)
    with c Cons Month_Day_Comma_Year show ?thesis
      by (simp add: match_sep_def)
  qed
qed

subsection \<open>Month and day together\<close>

lemma month_day_part_local:
  assumes "month_day_part fmt (u @ v) = Some (m, d, v)" and "v' \<noteq> []" and "\<not> is_space (hd v')"
  shows "month_day_part fmt (u @ v') = Some (m, d, v') \<and> 1 \<le> m \<and> m \<le> 12"
proof -
  from assms(1) obtain r1 r2 r3 where
    1: "match_month month_names (u @ v) = Some (m, r1)" and
    2: "skip_spaces1 r1 = Some r2" and
    3: "match_day r2 = Some (d, r3)" and
    4: "match_sep fmt r3 = Some v"
    by (auto simp: month_day_part_def split: option.splits prod.splits)
  from match_sep_shorter [OF 4] have l3: "length v < length r3" by simp
  from match_day_shorter [OF 3] have l2: "length r3 < length r2" by simp
  from skip_spaces1_shorter [OF 2] have l1: "length r2 < length r1" by simp
  from l1 l2 l3 have "length v < length r1" by simp
  from match_month_local [OF 1 this] obtain b1 where
    r1: "r1 = b1 @ v" and m1: "\<And>w. match_month month_names (u @ w) = Some (m, b1 @ w)"
    by blast
  from 2 r1 have "skip_spaces1 (b1 @ v) = Some r2" by simp
  moreover from l2 l3 have "length v < length r2" by simp
  ultimately obtain b2 where
    r2: "r2 = b2 @ v" and m2: "\<And>w. skip_spaces1 (b1 @ w) = Some (b2 @ w)"
    using skip_spaces1_local by blast
  from 3 r2 have "match_day (b2 @ v) = Some (d, r3)" by simp
  from match_day_local [OF this l3] obtain b3 where
    r3: "r3 = b3 @ v" and m3: "\<And>w. match_day (b2 @ w) = Some (d, b3 @ w)"
    by blast
  from 4 r3 have "match_sep fmt (b3 @ v) = Some v" by simp
  then have m4: "match_sep fmt (b3 @ v') = Some v'"
    using assms(2,3) by (rule match_sep_last)
  have "month_day_part fmt (u @ v') = Some (m, d, v')"
    by (simp add: month_day_part_def m1 m2 m3 m4)
  moreover from match_month_sound [OF 1] have "1 \<le> m \<and> m \<le> 12"
    using month_names_range by blast
  ultimately show ?thesis by simp
qed

lemma month_day_part_suffix:
  assumes "month_day_part fmt t = Some (m, d, r)"
  shows "\<exists>u. t = u @ r"
proof -
  from assms obtain r1 r2 r3 where
    1: "match_month month_names t = Some (m, r1)" and
    2: "skip_spaces1 r1 = Some r2" and
    3: "match_day r2 = Some (d, r3)" and
    4: "match_sep fmt r3 = Some r"
    by (auto simp: month_day_part_def split: option.splits prod.splits)
  from match_month_sound [OF 1] obtain name :: string where "r1 = drop (length name) t"
    by blast
  then have "t = take (length name) t @ r1" by simp
  moreover from skip_spaces1_shorter [OF 2] obtain p2 where "r1 = p2 @ r2" by blast
  moreover from match_day_shorter [OF 3] obtain p3 where "r2 = p3 @ r3" by blast
  moreover from match_sep_shorter [OF 4] obtain p4 where "r3 = p4 @ r" by blast
  ultimately have "t = (take (length name) t @ p2 @ p3 @ p4) @ r"
    by simp
  then show ?thesis ..
qed


subsection \<open>The year\<close>

lemma digit_char_facts:
  "\<forall>k\<in>set [0..<10]. is_digit (digit_char k) \<and> \<not> is_space (digit_char k) \<and>
     digit_val (digit_char k) = k"
  by code_simp

lemma digit_char_digit:
  assumes "k < 10"
  shows "is_digit (digit_char k)" and "\<not> is_space (digit_char k)"
    and "digit_val (digit_char k) = k"
proof -
  from assms have "k \<in> set [0..<10]" by simp
  with digit_char_facts
  have "is_digit (digit_char k) \<and> \<not> is_space (digit_char k) \<and> digit_val (digit_char k) = k"
    by (rule bspec)
  then show "is_digit (digit_char k)" and "\<not> is_space (digit_char k)"
    and "digit_val (digit_char k) = k"
    by simp_all
qed

lemma decimal_sum:
  fixes y :: nat
  shows "y = 10 * a + p \<Longrightarrow> a = 10 * b + q \<Longrightarrow> b = 10 * c + r \<Longrightarrow>
    1000 * c + 100 * r + 10 * q + p = y"
  by simp

lemma str_nat_year:
  assumes "1000 \<le> y" and "y \<le> 9999"
  shows "str_nat y =
    [digit_char (y div 10 div 10 div 10), digit_char (y div 10 div 10 mod 10),
     digit_char (y div 10 mod 10), digit_char (y mod 10)]"
proof -
  from assms have a: "\<not> y < 10" "\<not> y div 10 < 10" "\<not> y div 10 div 10 < 10"
    "y div 10 div 10 div 10 < 10"
    by simp_all
  have "str_nat y = str_nat (y div 10) @ [digit_char (y mod 10)]"
    using a(1) by (subst str_nat.simps) simp
  also have "str_nat (y div 10) = str_nat (y div 10 div 10) @ [digit_char (y div 10 mod 10)]"
    using a(2) by (subst str_nat.simps) simp
  also have "str_nat (y div 10 div 10) =
      str_nat (y div 10 div 10 div 10) @ [digit_char (y div 10 div 10 mod 10)]"
    using a(3) by (subst str_nat.simps) simp
  also have "str_nat (y div 10 div 10 div 10) = [digit_char (y div 10 div 10 div 10)]"
    using a(4) by (subst str_nat.simps) simp
  finally show ?thesis by simp
qed

lemma match_year_str_nat:
  assumes "1000 \<le> y" and "y \<le> 9999"
  shows "match_year (str_nat y) = Some (y, [])"
proof -
  from assms have c: "y div 10 div 10 div 10 < 10"
    by simp
  have d: "y div 10 div 10 mod 10 < 10" "y div 10 mod 10 < 10" "y mod 10 < 10"
    by simp_all
  have "1000 * (y div 10 div 10 div 10) + 100 * (y div 10 div 10 mod 10) +
      10 * (y div 10 mod 10) + y mod 10 = y"
    by (rule decimal_sum) simp_all
  then show ?thesis
    unfolding str_nat_year [OF assms]
    by (simp add: digit_char_digit [OF c] digit_char_digit [OF d(1)]
        digit_char_digit [OF d(2)] digit_char_digit [OF d(3)])
qed

lemma str_nat_year_head:
  assumes "1000 \<le> y" and "y \<le> 9999"
  shows "str_nat y \<noteq> []" and "\<not> is_space (hd (str_nat y))" and "length (str_nat y) = 4"
proof -
  from assms have c: "y div 10 div 10 div 10 < 10"
    by simp
  show "str_nat y \<noteq> []" and "\<not> is_space (hd (str_nat y))" and "length (str_nat y) = 4"
    unfolding str_nat_year [OF assms] by (simp_all add: digit_char_digit [OF c])
qed

lemma match_year_length:
  "match_year r = Some (y, []) \<Longrightarrow> length r = 4"
  by (induction r rule: match_year.induct) (auto split: if_splits)

subsection \<open>The same string in two years\<close>

lemma strptime_year:
  assumes "strptime (s @ '' '' @ str_nat y) fmt = Some dt"
    and "1000 \<le> y" and "y \<le> 9999" and "1000 \<le> y'" and "y' \<le> 9999"
  shows "\<exists>m d. dt = mk_date y m d \<and> 1 \<le> m \<and> m \<le> 12 \<and> d \<le> days_in_month y m \<and>
    strptime (s @ '' '' @ str_nat y') fmt =
      (if d \<le> days_in_month y' m then Some (mk_date y' m d) else None)"
proof -
  let ?t = "s @ '' '' @ str_nat y"
  from assms(1) obtain m d r4 yy where
    p: "month_day_part fmt ?t = Some (m, d, r4)" and
    my: "match_year r4 = Some (yy, [])" and
    ok: "d \<le> days_in_month yy m" and dt: "dt = mk_date yy m d"
    by (auto simp: strptime_split split: option.splits prod.splits if_splits)
  from month_day_part_suffix [OF p] obtain u where u: "?t = u @ r4"
    by blast
  have "length r4 = 4"
    using my by (rule match_year_length)
  then have "length r4 = length (str_nat y)"
    using str_nat_year_head(3) [OF assms(2,3)] by simp
  moreover from u have "(s @ '' '') @ str_nat y = u @ r4"
    by simp
  ultimately have "s @ '' '' = u \<and> str_nat y = r4"
    by (intro iffD1 [OF append_eq_append_conv]) simp_all
  then have r4: "r4 = str_nat y" and us: "u = s @ '' ''"
    by simp_all
  from my r4 match_year_str_nat [OF assms(2,3)] have yy: "yy = y"
    by simp
  from p r4 have "month_day_part fmt ((s @ '' '') @ str_nat y) = Some (m, d, str_nat y)"
    by simp
  from month_day_part_local [OF this str_nat_year_head(1,2) [OF assms(4,5)]]
  have p': "month_day_part fmt (s @ '' '' @ str_nat y') = Some (m, d, str_nat y')"
    and m: "1 \<le> m" "m \<le> 12"
    by simp_all
  have "strptime (s @ '' '' @ str_nat y') fmt =
      (if d \<le> days_in_month y' m then Some (mk_date y' m d) else None)"
    unfolding strptime_split p' using assms(4)
    by (simp add: match_year_str_nat [OF assms(4,5)])
  with dt yy ok m show ?thesis
    by blast
qed


section \<open>Recurring deadlines\<close>



lemma next_year_later: "dt_gt (mk_date (year now + 1) m d) now"
  by (simp add: dt_gt_def dt_lt_def dt_key_def mk_date_def)

lemma recurring_deadline_unparsable:
  "strptime (s @ '' '' @ str_nat (year now)) Month_Day_Year = None \<Longrightarrow>
   recurring_deadline now s = []"
  by (simp add: recurring_deadline_def)

lemma recurring_deadline_parsable:
  assumes "strptime (s @ '' '' @ str_nat (year now)) Month_Day_Year = Some dl"
    and "1000 \<le> year now" and "year now < 9999"
  shows "\<exists>m d. 1 \<le> m \<and> m \<le> 12 \<and> d \<le> days_in_month (year now) m \<and>
    dl = mk_date (year now) m d \<and>
    strptime (s @ '' '' @ str_nat (year now + 1)) Month_Day_Year =
      (if d \<le> days_in_month (year now + 1) m then Some (mk_date (year now + 1) m d) else None) \<and>
    recurring_deadline now s =
      (if dt_gt dl now then [dl]
       else if d \<le> days_in_month (year now + 1) m then [mk_date (year now + 1) m d]
       else [])"
proof -
  from assms(2,3) have r: "year now \<le> 9999" "1000 \<le> year now + 1" "year now + 1 \<le> 9999"
    by simp_all
  from strptime_year [OF assms(1,2) r] obtain m d where
    m: "1 \<le> m" "m \<le> 12" and d: "d \<le> days_in_month (year now) m" and
    dl: "dl = mk_date (year now) m d" and
    n: "strptime (s @ '' '' @ str_nat (year now + 1)) Month_Day_Year =
      (if d \<le> days_in_month (year now + 1) m then Some (mk_date (year now + 1) m d) else None)"
    by blast
  have "recurring_deadline now s =
      (if dt_gt dl now then [dl]
       else if d \<le> days_in_month (year now + 1) m then [mk_date (year now + 1) m d]
       else [])"
    unfolding recurring_deadline_def Let_def assms(1) n by simp
  with m d dl n show ?thesis
    by blast
qed

lemma recurring_deadline_future:
  assumes "1000 \<le> year now" and "year now < 9999" and "dl \<in> set (recurring_deadline now s)"
  shows "dt_gt dl now"
proof (cases "strptime (s @ '' '' @ str_nat (year now)) Month_Day_Year")
  case None
  then have "recurring_deadline now s = []"
    by (rule recurring_deadline_unparsable)
  with assms(3) show ?thesis by simp
next
  case (Some dl0)
  from recurring_deadline_parsable [OF Some assms(1,2)] obtain m d where
    "recurring_deadline now s =
      (if dt_gt dl0 now then [dl0]
       else if d \<le> days_in_month (year now + 1) m then [mk_date (year now + 1) m d]
       else [])"
    by blast
  with assms(3) have "(dt_gt dl0 now \<and> dl = dl0) \<or> dl = mk_date (year now + 1) m d"
    by (auto split: if_splits)
  then show ?thesis
    using next_year_later by blast
qed

lemma generate_recurring_deadlines_concat:
  "generate_recurring_deadlines now ss = concat (map (recurring_deadline now) ss)"
  by (induction ss) simp_all

lemma generate_recurring_deadlines_future:
  assumes "1000 \<le> year now" and "year now < 9999"
    and "dl \<in> set (generate_recurring_deadlines now ss)"
  shows "dt_gt dl now"
proof -
  from assms(3) obtain s where "dl \<in> set (recurring_deadline now s)"
    by (auto simp: generate_recurring_deadlines_concat)
  with assms(1,2) show ?thesis
    by (rule recurring_deadline_future)
qed











end
